theory Spec2Isabelle
  imports Complex_Main "HOL-Library.AList"
begin

section \<open>Python values and the parts of the runtime the code relies on\<close>

text \<open>
  The record layer (\<^verbatim>\<open>src/shared/data_mapping.py\<close>) works on loosely typed records: a
  \<^verbatim>\<open>Dict[str, Any]\<close> whose values are scalars (\<^verbatim>\<open>None\<close>, \<^verbatim>\<open>bool\<close>, \<^verbatim>\<open>int\<close>,
  \<^verbatim>\<open>float\<close>, \<^verbatim>\<open>str\<close>). A Python \<^verbatim>\<open>str\<close> is modelled as a \<open>string\<close>; the character
  predicates below are those of ASCII text, and a character above 127 is an uncased
  character that is neither a digit nor whitespace. Python's \<^verbatim>\<open>int\<close> is unbounded and
  modelled as \<open>int\<close>.

  A finite \<^verbatim>\<open>float\<close> is modelled by the rational number it denotes (every IEEE double is
  one); the negative zero, the two infinities and NaN are values of their own.
  Every exception the modelled code can raise is a value of \<open>py_error\<close>, and a function
  that can raise returns \<open>py_error + 'a\<close>.
\<close>

datatype py_error = ValueError | TypeError | OverflowError | AttributeError

datatype pyfloat = Fin rat | NegZero | PosInf | NegInf | NaN

datatype pyval = PNone | PBool bool | PInt int | PFloat pyfloat | PStr string

subsection \<open>Characters and strings\<close>

text \<open>The whitespace \<^verbatim>\<open>str.strip()\<close> removes, and the smaller set \<^verbatim>\<open>float()\<close> and \<^verbatim>\<open>int()\<close>
  accept around a number.\<close>

definition isspace :: "char \<Rightarrow> bool" where
  "isspace c \<longleftrightarrow> (of_char c :: nat) \<in> {9, 10, 11, 12, 13, 28, 29, 30, 31, 32}"

definition isspace_num :: "char \<Rightarrow> bool" where
  "isspace_num c \<longleftrightarrow> (of_char c :: nat) \<in> {9, 10, 11, 12, 13, 32}"

definition isdigit :: "char \<Rightarrow> bool" where
  "isdigit c \<longleftrightarrow> 48 \<le> (of_char c :: nat) \<and> (of_char c :: nat) \<le> 57"

definition isupper :: "char \<Rightarrow> bool" where
  "isupper c \<longleftrightarrow> 65 \<le> (of_char c :: nat) \<and> (of_char c :: nat) \<le> 90"

definition islower :: "char \<Rightarrow> bool" where
  "islower c \<longleftrightarrow> 97 \<le> (of_char c :: nat) \<and> (of_char c :: nat) \<le> 122"

definition iscased :: "char \<Rightarrow> bool" where
  "iscased c \<longleftrightarrow> isupper c \<or> islower c"

definition upper_char :: "char \<Rightarrow> char" where
  "upper_char c = (if islower c then char_of ((of_char c :: nat) - 32) else c)"

definition lower_char :: "char \<Rightarrow> char" where
  "lower_char c = (if isupper c then char_of ((of_char c :: nat) + 32) else c)"

text \<open>\<^verbatim>\<open>s.strip()\<close>: leading and trailing whitespace removed.\<close>

definition strip_by :: "(char \<Rightarrow> bool) \<Rightarrow> string \<Rightarrow> string" where
  "strip_by sp s = rev (dropWhile sp (rev (dropWhile sp s)))"

definition py_strip :: "string \<Rightarrow> string" where
  "py_strip s = strip_by isspace s"

text \<open>\<^verbatim>\<open>s.split(sep)\<close> for a one-character separator; the empty string splits into \<^verbatim>\<open>['']\<close>.\<close>

fun py_split :: "char \<Rightarrow> string \<Rightarrow> string list" where
  "py_split sep [] = [[]]"
| "py_split sep (c # cs) =
     (if c = sep then [] # py_split sep cs
      else (case py_split sep cs of
              [] \<Rightarrow> [[c]]
            | t # ts \<Rightarrow> (c # t) # ts))"

text \<open>\<^verbatim>\<open>sep.join(items)\<close>.\<close>

fun py_join :: "string \<Rightarrow> string list \<Rightarrow> string" where
  "py_join sep [] = []"
| "py_join sep [x] = x"
| "py_join sep (x # y # ys) = x @ sep @ py_join sep (y # ys)"

text \<open>\<^verbatim>\<open>s.replace(a, b)\<close> for one-character \<open>a\<close> and \<open>b\<close>.\<close>

definition py_replace :: "char \<Rightarrow> char \<Rightarrow> string \<Rightarrow> string" where
  "py_replace a b s = map (\<lambda>c. if c = a then b else c) s"

text \<open>
  \<^verbatim>\<open>s.title()\<close>: a cased character is upper-cased when the character before it is not
  cased (or there is none) and lower-cased otherwise; every other character is kept.
  The flag says whether the previous character was cased.
\<close>

fun title_from :: "bool \<Rightarrow> string \<Rightarrow> string" where
  "title_from prev [] = []"
| "title_from prev (c # cs) =
     (if iscased c
      then (if prev then lower_char c else upper_char c) # title_from True cs
      else c # title_from False cs)"

definition py_title :: "string \<Rightarrow> string" where
  "py_title s = title_from False s"

subsection \<open>Integers and floats as text\<close>

definition digit_char :: "nat \<Rightarrow> char" where
  "digit_char d = char_of (48 + d)"

fun str_nat :: "nat \<Rightarrow> string" where
  "str_nat n = (if n < 10 then [digit_char n] else str_nat (n div 10) @ [digit_char (n mod 10)])"

declare str_nat.simps [simp del]

text \<open>
  \<^verbatim>\<open>str(n)\<close> for an \<^verbatim>\<open>int\<close>: its decimal digits. CPython 3.11 and later refuse to print
  an integer of more digits than a configurable limit (4300 by default) and raise
  \<^verbatim>\<open>ValueError\<close>. The limit is not modelled: the model prints every integer.
\<close>

definition str_int :: "int \<Rightarrow> string" where
  "str_int n = (if n < 0 then CHR ''-'' # str_nat (nat (- n)) else str_nat (nat n))"

text \<open>The format \<^verbatim>\<open>{n:,}\<close>: a comma before every group of three digits, counted from the
  right. \<open>group3\<close> works on the digits in reverse.\<close>

fun group3 :: "string \<Rightarrow> string" where
  "group3 (a # b # c # d # ds) = a # b # c # CHR '','' # group3 (d # ds)"
| "group3 ds = ds"

definition format_thousands :: "int \<Rightarrow> string" where
  "format_thousands n =
     (if n < 0 then [CHR ''-''] else []) @ rev (group3 (rev (str_nat (nat \<bar>n\<bar>))))"

text \<open>Rounding a non-negative rational to the nearest integer, ties to the even one.\<close>

definition round_half_even :: "rat \<Rightarrow> int" where
  "round_half_even q =
     (let f = \<lfloor>q\<rfloor>; d = q - of_int f
      in if d < 1 / 2 then f
         else if 1 / 2 < d then f + 1
         else if even f then f else f + 1)"

text \<open>
  The formats \<^verbatim>\<open>{x:.2f}\<close> and \<^verbatim>\<open>{x:.1f}\<close> (\<open>prec\<close> digits after the point): the exact value
  of the float, correctly rounded to \<open>prec\<close> decimals, ties to even; the sign is kept when
  a negative value rounds to zero.
\<close>

definition format_fixed :: "nat \<Rightarrow> pyfloat \<Rightarrow> string" where
  "format_fixed prec x =
     (case x of
        Fin q \<Rightarrow>
          (let n = nat (round_half_even (\<bar>q\<bar> * 10 ^ prec));
               frac = str_nat (n mod 10 ^ prec)
           in (if q < 0 then [CHR ''-''] else []) @ str_nat (n div 10 ^ prec) @
              (if prec = 0 then []
               else CHR ''.'' # replicate (prec - length frac) CHR ''0'' @ frac))
      | NegZero \<Rightarrow> ''-0'' @ (if prec = 0 then [] else CHR ''.'' # replicate prec CHR ''0'')
      | PosInf \<Rightarrow> ''inf''
      | NegInf \<Rightarrow> ''-inf''
      | NaN \<Rightarrow> ''nan'')"

text \<open>
  \<^verbatim>\<open>str(v)\<close>. The shortest-round-trip text Python prints for a finite float is not
  needed by any property below; it is the parameter \<open>float_repr\<close>.
\<close>

definition py_str :: "(rat \<Rightarrow> string) \<Rightarrow> pyval \<Rightarrow> string" where
  "py_str float_repr v =
     (case v of
        PNone \<Rightarrow> ''None''
      | PBool b \<Rightarrow> (if b then ''True'' else ''False'')
      | PInt n \<Rightarrow> str_int n
      | PFloat x \<Rightarrow>
          (case x of
             Fin q \<Rightarrow> float_repr q
           | NegZero \<Rightarrow> ''-0.0''
           | PosInf \<Rightarrow> ''inf''
           | NegInf \<Rightarrow> ''-inf''
           | NaN \<Rightarrow> ''nan'')
      | PStr s \<Rightarrow> s)"

text \<open>Truth value of a scalar, as \<^verbatim>\<open>if not v\<close> tests it.\<close>

definition py_truthy :: "pyval \<Rightarrow> bool" where
  "py_truthy v =
     (case v of
        PNone \<Rightarrow> False
      | PBool b \<Rightarrow> b
      | PInt n \<Rightarrow> n \<noteq> 0
      | PFloat x \<Rightarrow> x \<noteq> Fin 0 \<and> x \<noteq> NegZero
      | PStr s \<Rightarrow> s \<noteq> [])"

subsection \<open>Conversions: \<^verbatim>\<open>float(v)\<close> and \<^verbatim>\<open>int(v)\<close>\<close>

fun bit_length :: "nat \<Rightarrow> nat" where
  "bit_length n = (if n = 0 then 0 else Suc (bit_length (n div 2)))"

declare bit_length.simps [simp del]

definition pow2 :: "int \<Rightarrow> rat" where
  "pow2 e = (if 0 \<le> e then 2 ^ nat e else 1 / 2 ^ nat (- e))"

text \<open>\<open>\<lfloor>log\<^sub>2 a\<rfloor>\<close> for a positive rational.\<close>

definition ilog2 :: "rat \<Rightarrow> int" where
  "ilog2 a =
     (let (n, d) = quotient_of a;
          k = int (bit_length (nat n)) - int (bit_length (nat d))
      in if pow2 k \<le> a then k else k - 1)"

text \<open>
  The IEEE double nearest to a rational (round to nearest, ties to even; 53-bit
  significand, subnormals down to \<open>2\<^sup>-\<^sup>1\<^sup>0\<^sup>7\<^sup>4\<close>): a value that rounds to at least
  \<open>2\<^sup>1\<^sup>0\<^sup>2\<^sup>4\<close> is an infinity, and one that rounds to zero keeps its sign.
\<close>

definition to_double :: "rat \<Rightarrow> pyfloat" where
  "to_double q =
     (if q = 0 then Fin 0
      else
        (let a = \<bar>q\<bar>;
             e = max (ilog2 a - 52) (- 1074);
             m = round_half_even (a / pow2 e);
             v = of_int m * pow2 e
         in if pow2 1024 \<le> v then (if q < 0 then NegInf else PosInf)
            else if m = 0 then (if q < 0 then NegZero else Fin 0)
            else Fin (if q < 0 then - v else v)))"

text \<open>
  \<^verbatim>\<open>float(n)\<close> for an \<^verbatim>\<open>int\<close>: the nearest double, or \<^verbatim>\<open>OverflowError\<close> (int too large to
  convert to float) when the nearest double would be beyond the largest one,
  \<open>2\<^sup>1\<^sup>0\<^sup>2\<^sup>4 - 2\<^sup>9\<^sup>7\<^sup>1\<close>: from the midpoint \<open>2\<^sup>1\<^sup>0\<^sup>2\<^sup>4 - 2\<^sup>9\<^sup>7\<^sup>0\<close> on, where the tie goes to the even
  significand above.
\<close>

definition float_of_int :: "int \<Rightarrow> py_error + pyfloat" where
  "float_of_int n =
     (if 2 ^ 1024 - 2 ^ 970 \<le> \<bar>n\<bar> then Inl OverflowError else Inr (to_double (of_int n)))"

text \<open>
  A \<^verbatim>\<open>digitpart\<close> of Python's numeric grammar: digits, with single underscores allowed
  between two digits. \<open>digits_rest\<close> reads on after a digit and returns the digits read
  and what is left.
\<close>

fun digits_rest :: "string \<Rightarrow> string \<times> string" where
  "digits_rest [] = ([], [])"
| "digits_rest (c # cs) =
     (if isdigit c then (let (ds, r) = digits_rest cs in (c # ds, r))
      else if c = CHR ''_'' then
        (case cs of
           [] \<Rightarrow> ([], c # cs)
         | d # cs' \<Rightarrow>
             (if isdigit d then (let (ds, r) = digits_rest cs' in (d # ds, r))
              else ([], c # cs)))
      else ([], c # cs))"

definition digitpart :: "string \<Rightarrow> (string \<times> string) option" where
  "digitpart s =
     (case s of
        [] \<Rightarrow> None
      | c # cs \<Rightarrow> (if isdigit c then (let (ds, r) = digits_rest cs in Some (c # ds, r)) else None))"

definition nat_of_digits :: "string \<Rightarrow> nat" where
  "nat_of_digits ds = foldl (\<lambda>acc c. 10 * acc + ((of_char c :: nat) - 48)) 0 ds"

definition split_sign :: "string \<Rightarrow> bool \<times> string" where
  "split_sign s =
     (case s of
        [] \<Rightarrow> (False, [])
      | c # cs \<Rightarrow>
          (if c = CHR ''-'' then (True, cs)
           else if c = CHR ''+'' then (False, cs)
           else (False, s)))"

text \<open>\<^verbatim>\<open>int(s)\<close> for a string, base ten: surrounding whitespace, an optional sign, one
  \<^verbatim>\<open>digitpart\<close>. \<open>None\<close> stands for \<^verbatim>\<open>ValueError\<close>.\<close>

definition parse_int :: "string \<Rightarrow> int option" where
  "parse_int s =
     (let (neg, r) = split_sign (strip_by isspace_num s)
      in case digitpart r of
           Some (ds, []) \<Rightarrow> Some (if neg then - int (nat_of_digits ds) else int (nat_of_digits ds))
         | _ \<Rightarrow> None)"

text \<open>The mantissa of a decimal literal: integer digits, fraction digits, the rest.
  One of the two digit groups may be missing, not both.\<close>

definition mantissa :: "string \<Rightarrow> (string \<times> string \<times> string) option" where
  "mantissa s =
     (case digitpart s of
        Some (ip, r) \<Rightarrow>
          (case r of
             [] \<Rightarrow> Some (ip, [], [])
           | c # r' \<Rightarrow>
               (if c = CHR ''.'' then
                  (case digitpart r' of
                     Some (fp, r'') \<Rightarrow> Some (ip, fp, r'')
                   | None \<Rightarrow> Some (ip, [], r'))
                else Some (ip, [], r)))
      | None \<Rightarrow>
          (case s of
             [] \<Rightarrow> None
           | c # r' \<Rightarrow>
               (if c = CHR ''.'' then
                  (case digitpart r' of
                     Some (fp, r'') \<Rightarrow> Some ([], fp, r'')
                   | None \<Rightarrow> None)
                else None)))"

text \<open>The exponent part: nothing, or \<^verbatim>\<open>e\<close>/\<^verbatim>\<open>E\<close>, an optional sign and a \<^verbatim>\<open>digitpart\<close> that
  ends the text.\<close>

definition exponent :: "string \<Rightarrow> int option" where
  "exponent s =
     (case s of
        [] \<Rightarrow> Some 0
      | c # r \<Rightarrow>
          (if c = CHR ''e'' \<or> c = CHR ''E'' then
             (let (neg, r') = split_sign r
              in case digitpart r' of
                   Some (ds, []) \<Rightarrow>
                     Some (if neg then - int (nat_of_digits ds) else int (nat_of_digits ds))
                 | _ \<Rightarrow> None)
           else None))"

definition pow10 :: "int \<Rightarrow> rat" where
  "pow10 e = (if 0 \<le> e then 10 ^ nat e else 1 / 10 ^ nat (- e))"

text \<open>
  \<^verbatim>\<open>float(s)\<close> for a string: surrounding whitespace, an optional sign, then \<^verbatim>\<open>inf\<close>,
  \<^verbatim>\<open>infinity\<close> or \<^verbatim>\<open>nan\<close> in any case, or a decimal literal, which is rounded to the
  nearest double (so a literal too large gives an infinity, not an error). \<open>None\<close> stands
  for \<^verbatim>\<open>ValueError\<close>.
\<close>

definition parse_float :: "string \<Rightarrow> pyfloat option" where
  "parse_float s =
     (let (neg, r) = split_sign (strip_by isspace_num s);
          w = map lower_char r
      in if w = ''inf'' \<or> w = ''infinity'' then Some (if neg then NegInf else PosInf)
         else if w = ''nan'' then Some NaN
         else
           (case mantissa r of
              None \<Rightarrow> None
            | Some (ip, fp, r') \<Rightarrow>
                (case exponent r' of
                   None \<Rightarrow> None
                 | Some e \<Rightarrow>
                     (let q = rat_of_nat (nat_of_digits (ip @ fp)) * pow10 (e - int (length fp))
                      in if q = 0 then Some (if neg then NegZero else Fin 0)
                         else Some (to_double (if neg then - q else q))))))"

definition py_float :: "pyval \<Rightarrow> py_error + pyfloat" where
  "py_float v =
     (case v of
        PNone \<Rightarrow> Inl TypeError
      | PBool b \<Rightarrow> Inr (Fin (if b then 1 else 0))
      | PInt n \<Rightarrow> float_of_int n
      | PFloat x \<Rightarrow> Inr x
      | PStr s \<Rightarrow> (case parse_float s of None \<Rightarrow> Inl ValueError | Some x \<Rightarrow> Inr x))"

text \<open>\<^verbatim>\<open>int(x)\<close> for a float truncates towards zero; an infinity raises
  \<^verbatim>\<open>OverflowError\<close> and NaN raises \<^verbatim>\<open>ValueError\<close>.\<close>

definition int_of_float :: "pyfloat \<Rightarrow> py_error + int" where
  "int_of_float x =
     (case x of
        Fin q \<Rightarrow> Inr (if 0 \<le> q then \<lfloor>q\<rfloor> else - \<lfloor>- q\<rfloor>)
      | NegZero \<Rightarrow> Inr 0
      | PosInf \<Rightarrow> Inl OverflowError
      | NegInf \<Rightarrow> Inl OverflowError
      | NaN \<Rightarrow> Inl ValueError)"

definition py_int :: "pyval \<Rightarrow> py_error + int" where
  "py_int v =
     (case v of
        PNone \<Rightarrow> Inl TypeError
      | PBool b \<Rightarrow> Inr (if b then 1 else 0)
      | PInt n \<Rightarrow> Inr n
      | PFloat x \<Rightarrow> int_of_float x
      | PStr s \<Rightarrow> (case parse_int s of None \<Rightarrow> Inl ValueError | Some n \<Rightarrow> Inr n))"

text \<open>
  \<^verbatim>\<open>s * n\<close> on a string: empty for \<open>n \<le> 0\<close>; a count outside the range of an index
  (\<^verbatim>\<open>-sys.maxsize - 1\<close> to \<^verbatim>\<open>sys.maxsize\<close>, 64-bit CPython) raises \<^verbatim>\<open>OverflowError\<close>.
  A count inside the range can still be more than memory holds, and CPython then raises
  \<^verbatim>\<open>MemoryError\<close>. How much memory there is is not modelled: the model repeats a string
  any number of times within the index range.
\<close>

definition maxsize :: int where
  "maxsize = 2 ^ 63 - 1"

definition str_repeat :: "string \<Rightarrow> int \<Rightarrow> py_error + string" where
  "str_repeat s n =
     (if n < - maxsize - 1 \<or> maxsize < n then Inl OverflowError
      else Inr (concat (replicate (nat n) s)))"

section \<open>The data mapper (\<^verbatim>\<open>src/shared/data_mapping.py\<close>)\<close>

datatype FieldType = DISPLAY | HYPERLINK | DISPLAY_IMAGE | SEARCHABLE | IGNORE

record FieldSpec =
  field_name :: string
  display_name :: string
  field_type :: FieldType
  description :: "string option"
  format_rule :: "string option"

text \<open>
  A \<^verbatim>\<open>DataMapper\<close> object: the two tables its constructor extracts from
  \<^verbatim>\<open>data_map.yaml\<close>. The file is not part of the sources (and the loader turns a missing
  or unreadable file into empty tables), so the tables are parameters of every method.
\<close>

record DataMapper =
  genre_mapping :: "string \<rightharpoonup> string"
  field_specs :: "string \<rightharpoonup> FieldSpec"

text \<open>
  \<^verbatim>\<open>self.genre_mapping.get(genre_code, genre_code.replace('_', ' ').title())\<close>: the
  default is an argument of \<^verbatim>\<open>get\<close>, so it is computed whether or not the code is in the
  table; on a value that is not a string it raises \<^verbatim>\<open>AttributeError\<close>.
\<close>

definition get_genre_display_name :: "DataMapper \<Rightarrow> pyval \<Rightarrow> py_error + string" where
  "get_genre_display_name self genre_code =
     (case genre_code of
        PStr s \<Rightarrow>
          (let default = py_title (py_replace CHR ''_'' CHR '' '' s)
           in Inr (case genre_mapping self s of None \<Rightarrow> default | Some name \<Rightarrow> name))
      | _ \<Rightarrow> Inl AttributeError)"

definition get_field_spec :: "DataMapper \<Rightarrow> string \<Rightarrow> FieldSpec option" where
  "get_field_spec self name = field_specs self name"

text \<open>Sequencing of steps that can raise, and the handler
  \<^verbatim>\<open>except (ValueError, TypeError): return str(value)\<close>.\<close>

definition and_then :: "py_error + 'a \<Rightarrow> ('a \<Rightarrow> py_error + 'b) \<Rightarrow> py_error + 'b" where
  "and_then r f = (case r of Inl e \<Rightarrow> Inl e | Inr x \<Rightarrow> f x)"

definition except_value_type :: "py_error + string \<Rightarrow> string \<Rightarrow> py_error + string" where
  "except_value_type body fallback =
     (case body of
        Inr s \<Rightarrow> Inr s
      | Inl e \<Rightarrow> (if e = ValueError \<or> e = TypeError then Inr fallback else Inl e))"

text \<open>The star glyph U+2B50 of the rating format, as its UTF-8 bytes.\<close>

definition star :: string where
  "star = [CHR 0xE2, CHR 0xAD, CHR 0x90]"

definition format_field_value ::
    "DataMapper \<Rightarrow> (rat \<Rightarrow> string) \<Rightarrow> string \<Rightarrow> pyval \<Rightarrow> py_error + string" where
  "format_field_value self float_repr name value =
     (if value = PNone \<or> value = PStr [] then Inr ''N/A''
      else
        (case get_field_spec self name of
           None \<Rightarrow> Inr (py_str float_repr value)
         | Some spec \<Rightarrow>
             (if name = ''price'' then
                except_value_type
                  (and_then (py_float value) (\<lambda>x. Inr (CHR ''$'' # format_fixed 2 x)))
                  (py_str float_repr value)
              else if name = ''reviewAverage'' then
                except_value_type
                  (and_then (py_float value) (\<lambda>rating.
                   and_then (int_of_float rating) (\<lambda>n.
                   and_then (str_repeat star n) (\<lambda>stars.
                   Inr (stars @ '' '' @ format_fixed 1 rating)))))
                  (py_str float_repr value)
              else if name = ''nReviews'' then
                except_value_type
                  (and_then (py_int value) (\<lambda>n. Inr (format_thousands n)))
                  (py_str float_repr value)
              else if name = ''releaseDate'' then Inr (py_str float_repr value)
              else if name = ''isTrad'' then
                (case value of
                   PBool b \<Rightarrow> Inr (if b then ''Yes'' else ''No'')
                 | _ \<Rightarrow> Inr (py_str float_repr value))
              else if name = ''isFree'' then
                (case value of
                   PBool b \<Rightarrow> Inr (if b then ''Free'' else ''Paid'')
                 | _ \<Rightarrow> Inr (py_str float_repr value))
              else if name = ''topicTags'' \<or> name = ''subcatsList'' then
                (case value of
                   PStr s \<Rightarrow>
                     (if CHR ''|'' \<in> set s then
                        Inr (py_join '', ''
                               (map py_strip
                                  (filter (\<lambda>item. py_strip item \<noteq> []) (py_split CHR ''|'' s))))
                      else if CHR ''#'' \<in> set s then
                        Inr (py_join '', ''
                               (map py_strip
                                  (filter (\<lambda>item. py_strip item \<noteq> []) (py_split CHR ''#'' s))))
                      else Inr (py_str float_repr value))
                 | _ \<Rightarrow> Inr (py_str float_repr value))
              else Inr (py_str float_repr value))))"

subsection \<open>The two regular expressions of \<^verbatim>\<open>extract_author_info\<close>\<close>

text \<open>
  \<^verbatim>\<open>\[([^\]]+)\]\(([^)]+)\)\<close> tried at the start of a text. Each group is a greedy run of
  characters that excludes the delimiter which must follow it, so the only way to match
  is the longest run: a shorter one is followed by a character of the run, not by the
  delimiter. The result is the two groups.
\<close>

definition match_markdown :: "string \<Rightarrow> (string \<times> string) option" where
  "match_markdown s =
     (case s of
        [] \<Rightarrow> None
      | c # r \<Rightarrow>
          (if c \<noteq> CHR ''['' then None
           else
             (let name = takeWhile (\<lambda>x. x \<noteq> CHR '']'') r;
                  r1 = dropWhile (\<lambda>x. x \<noteq> CHR '']'') r
              in if name = [] then None
                 else
                   (case r1 of
                      a # b # r2 \<Rightarrow>
                        (if a = CHR '']'' \<and> b = CHR ''('' then
                           (let url = takeWhile (\<lambda>x. x \<noteq> CHR '')'') r2;
                                r3 = dropWhile (\<lambda>x. x \<noteq> CHR '')'') r2
                            in if url = [] \<or> r3 = [] then None else Some (name, url))
                         else None)
                    | _ \<Rightarrow> None))))"

text \<open>\<^verbatim>\<open>re.search\<close>: the match at the leftmost position that has one.\<close>

fun search_markdown :: "string \<Rightarrow> (string \<times> string) option" where
  "search_markdown [] = match_markdown []"
| "search_markdown (c # cs) =
     (case match_markdown (c # cs) of
        Some m \<Rightarrow> Some m
      | None \<Rightarrow> search_markdown cs)"

definition is_upper_alnum :: "char \<Rightarrow> bool" where
  "is_upper_alnum c \<longleftrightarrow> isupper c \<or> isdigit c"

text \<open>
  \<^verbatim>\<open>/([A-Z0-9]{10,})/?$\<close> tried at the start of a text: a slash, the longest run of
  upper-case letters and digits (a shorter one is followed by a character of the run,
  where only a slash or the end can follow), an optional slash, and \<^verbatim>\<open>$\<close>, which matches
  at the end of the text and before a newline that ends it.
\<close>

definition match_isbn :: "string \<Rightarrow> string option" where
  "match_isbn s =
     (case s of
        [] \<Rightarrow> None
      | c # r \<Rightarrow>
          (if c \<noteq> CHR ''/'' then None
           else
             (let tok = takeWhile is_upper_alnum r;
                  rest = dropWhile is_upper_alnum r
              in if 10 \<le> length tok \<and>
                    (rest = [] \<or> rest = ''/'' \<or> rest = [CHR 0x0A] \<or> rest = [CHR ''/'', CHR 0x0A])
                 then Some tok else None)))"

fun search_isbn :: "string \<Rightarrow> string option" where
  "search_isbn [] = match_isbn []"
| "search_isbn (c # cs) =
     (case match_isbn (c # cs) of
        Some tok \<Rightarrow> Some tok
      | None \<Rightarrow> search_isbn cs)"

text \<open>
  \<^verbatim>\<open>extract_author_info\<close>: a falsy argument gives the unknown author; \<^verbatim>\<open>re.search\<close> on a
  value that is not a string raises \<^verbatim>\<open>TypeError\<close>.
\<close>

definition extract_author_info ::
    "pyval \<Rightarrow> py_error + (string \<times> string option \<times> string option)" where
  "extract_author_info author_text =
     (if \<not> py_truthy author_text then Inr (''Unknown Author'', None, None)
      else
        (case author_text of
           PStr s \<Rightarrow>
             (case search_markdown s of
                Some (author_name, author_url) \<Rightarrow>
                  Inr (author_name, Some author_url, search_isbn author_url)
              | None \<Rightarrow> Inr (s, None, None))
         | _ \<Rightarrow> Inl TypeError))"

subsection \<open>Records in a store\<close>

text \<open>
  A record is a Python \<^verbatim>\<open>dict\<close>: an association list in insertion order, where an
  assignment replaces the value of a key in place or appends a new key. Dictionaries are
  objects: the store is the list of the dictionaries allocated so far, and a reference
  is an index into it, valid when it is below the length of the store. \<^verbatim>\<open>copy()\<close>
  allocates a new dictionary at the end of the store.
\<close>

type_synonym pydict = "(string \<times> pyval) list"

type_synonym store = "pydict list"

definition dict_copy :: "store \<Rightarrow> nat \<Rightarrow> nat \<times> store" where
  "dict_copy h a = (length h, h @ [h ! a])"

definition dict_get :: "store \<Rightarrow> nat \<Rightarrow> string \<Rightarrow> pyval option" where
  "dict_get h a k = map_of (h ! a) k"

definition dict_setitem :: "store \<Rightarrow> nat \<Rightarrow> string \<Rightarrow> pyval \<Rightarrow> store" where
  "dict_setitem h a k v = h[a := AList.update k v (h ! a)]"

definition dict_items :: "store \<Rightarrow> nat \<Rightarrow> (string \<times> pyval) list" where
  "dict_items h a = h ! a"

definition opt_str :: "string option \<Rightarrow> pyval" where
  "opt_str x = (case x of None \<Rightarrow> PNone | Some s \<Rightarrow> PStr s)"

text \<open>The three blocks of \<^verbatim>\<open>get_enhanced_book_data\<close>. Each returns the exception it
  raised, if any, and the store it leaves.\<close>

definition apply_genre_mapping :: "DataMapper \<Rightarrow> nat \<Rightarrow> store \<Rightarrow> py_error option \<times> store" where
  "apply_genre_mapping self enhanced h =
     (case dict_get h enhanced ''genre'' of
        None \<Rightarrow> (None, h)
      | Some g \<Rightarrow>
          (case get_genre_display_name self g of
             Inl e \<Rightarrow> (Some e, h)
           | Inr s \<Rightarrow> (None, dict_setitem h enhanced ''genre_display'' (PStr s))))"

definition extract_author :: "nat \<Rightarrow> store \<Rightarrow> py_error option \<times> store" where
  "extract_author enhanced h =
     (case dict_get h enhanced ''Author'' of
        None \<Rightarrow> (None, h)
      | Some a \<Rightarrow>
          (case extract_author_info a of
             Inl e \<Rightarrow> (Some e, h)
           | Inr (name, url, isbn) \<Rightarrow>
               (let h1 = dict_setitem h enhanced ''author_name'' (PStr name);
                    h2 = dict_setitem h1 enhanced ''author_url'' (opt_str url);
                    h3 = dict_setitem h2 enhanced ''author_isbn'' (opt_str isbn)
                in (None, h3))))"

fun format_items ::
    "DataMapper \<Rightarrow> (rat \<Rightarrow> string) \<Rightarrow> nat \<Rightarrow> (string \<times> pyval) list \<Rightarrow> store
      \<Rightarrow> py_error option \<times> store" where
  "format_items self float_repr enhanced [] h = (None, h)"
| "format_items self float_repr enhanced ((name, value) # items) h =
     (if field_specs self name \<noteq> None then
        (case format_field_value self float_repr name value of
           Inl e \<Rightarrow> (Some e, h)
         | Inr s \<Rightarrow>
             format_items self float_repr enhanced items
               (dict_setitem h enhanced (name @ ''_formatted'') (PStr s)))
      else format_items self float_repr enhanced items h)"

text \<open>The result is the reference to the enhanced record, or the exception that escaped,
  and the store after the call.\<close>

definition get_enhanced_book_data ::
    "DataMapper \<Rightarrow> (rat \<Rightarrow> string) \<Rightarrow> store \<Rightarrow> nat \<Rightarrow> (py_error + nat) \<times> store" where
  "get_enhanced_book_data self float_repr h book_data =
     (let (enhanced, h0) = dict_copy h book_data
      in case apply_genre_mapping self enhanced h0 of
           (Some e, h1) \<Rightarrow> (Inl e, h1)
         | (None, h1) \<Rightarrow>
             (case extract_author enhanced h1 of
                (Some e, h2) \<Rightarrow> (Inl e, h2)
              | (None, h2) \<Rightarrow>
                  (let items_to_format = dict_items h2 enhanced
                   in case format_items self float_repr enhanced items_to_format h2 of
                        (Some e, h3) \<Rightarrow> (Inl e, h3)
                      | (None, h3) \<Rightarrow> (Inr enhanced, h3))))"

section \<open>Market metrics (\<^verbatim>\<open>src/phase2-webapp/app/main.py\<close>)\<close>

text \<open>
  \<^verbatim>\<open>calculate_market_metrics\<close> works on a pandas data frame built from the rows of
  \<^verbatim>\<open>get_genre_stats\<close>: \<^verbatim>\<open>book_count\<close> and \<^verbatim>\<open>avg_reviews\<close> are integers, \<^verbatim>\<open>avg_price\<close> and
  \<^verbatim>\<open>avg_rating\<close> are finite floats. The numbers are taken as the spec takes them, as
  exact rationals: rounding to 53 bits is not modelled. What is modelled is that pandas
  does not raise on a division by zero: the result is an infinity or NaN, here the
  value \<open>NonFinite\<close>, and it stays non-finite under every operation applied to it below
  (the divisors are columns of the input, a column maximum and the literal 2, never a
  computed infinity).
\<close>

datatype npfloat = Num rat | NonFinite

fun np_mul :: "npfloat \<Rightarrow> npfloat \<Rightarrow> npfloat" where
  "np_mul (Num a) (Num b) = Num (a * b)"
| "np_mul _ _ = NonFinite"

fun np_add :: "npfloat \<Rightarrow> npfloat \<Rightarrow> npfloat" where
  "np_add (Num a) (Num b) = Num (a + b)"
| "np_add _ _ = NonFinite"

fun np_div :: "npfloat \<Rightarrow> npfloat \<Rightarrow> npfloat" where
  "np_div (Num a) (Num b) = (if b = 0 then NonFinite else Num (a / b))"
| "np_div _ _ = NonFinite"

text \<open>A row of the frame: the columns of \<^verbatim>\<open>get_genre_stats\<close> and the five derived columns,
  \<open>None\<close> while the frame does not have the column.\<close>

record genre_stats_row =
  genre :: string
  book_count :: int
  avg_price :: rat
  avg_rating :: rat
  avg_reviews :: int
  market_opportunity :: "npfloat option"
  competition_level :: "npfloat option"
  quality_threshold :: "npfloat option"
  revenue_potential :: "npfloat option"
  entry_difficulty :: "npfloat option"

text \<open>\<^verbatim>\<open>Series.max()\<close> of an integer column; NaN for an empty one.\<close>

definition col_max :: "int list \<Rightarrow> npfloat" where
  "col_max xs = (case xs of [] \<Rightarrow> NonFinite | x # ys \<Rightarrow> Num (of_int (fold max ys x)))"

text \<open>
  Each statement assigns one column from the columns the frame has at that point; the
  last one reads the two columns assigned before it (they exist by then, so the lookup
  cannot miss).
\<close>

definition calculate_market_metrics :: "genre_stats_row list \<Rightarrow> genre_stats_row list" where
  "calculate_market_metrics df =
     (let df1 = map (\<lambda>r. r\<lparr>market_opportunity :=
                   Some (np_div (np_mul (np_mul (Num (avg_price r)) (Num (of_int (avg_reviews r))))
                                        (Num (avg_rating r)))
                                (Num (of_int (book_count r))))\<rparr>) df;
          book_count_max = col_max (map book_count df1);
          df2 = map (\<lambda>r. r\<lparr>competition_level :=
                   Some (np_mul (np_div (Num (of_int (book_count r))) book_count_max)
                                (Num 100))\<rparr>) df1;
          avg_reviews_max = col_max (map avg_reviews df2);
          df3 = map (\<lambda>r. r\<lparr>quality_threshold :=
                   Some (np_mul (Num (avg_rating r))
                                (np_div (Num (of_int (avg_reviews r))) avg_reviews_max))\<rparr>) df2;
          df4 = map (\<lambda>r. r\<lparr>revenue_potential :=
                   Some (np_mul (Num (avg_price r)) (Num (of_int (avg_reviews r))))\<rparr>) df3;
          df5 = map (\<lambda>r. r\<lparr>entry_difficulty :=
                   (case (competition_level r, quality_threshold r) of
                      (Some c, Some q) \<Rightarrow> Some (np_div (np_add c (np_mul q (Num 20))) (Num 2))
                    | _ \<Rightarrow> None)\<rparr>) df4
      in df5)"

section \<open>Notions used to state the properties\<close>

text \<open>
  The field table \<^verbatim>\<open>_extract_field_specs\<close> builds from a configuration that lists the
  given fields with no options (display type \<^verbatim>\<open>display\<close>, the field name as display
  name), and an empty genre table.
\<close>

definition mapper_with :: "string list \<Rightarrow> DataMapper" where
  "mapper_with names =
     \<lparr>genre_mapping = Map.empty,
      field_specs = (\<lambda>n. if n \<in> set names
                          then Some \<lparr>field_name = n, display_name = n, field_type = DISPLAY,
                                     description = None, format_rule = None\<rparr>
                          else None)\<rparr>"

text \<open>A row as \<^verbatim>\<open>get_genre_stats\<close> returns it: no derived column yet.\<close>

definition stats_row :: "string \<Rightarrow> int \<Rightarrow> rat \<Rightarrow> rat \<Rightarrow> int \<Rightarrow> genre_stats_row" where
  "stats_row g n price rating reviews =
     \<lparr>genre = g, book_count = n, avg_price = price, avg_rating = rating, avg_reviews = reviews,
      market_opportunity = None, competition_level = None, quality_threshold = None,
      revenue_potential = None, entry_difficulty = None\<rparr>"

text \<open>
  The keys of a record when the formatting loop starts, and the keys the enhancer
  assigns: \<^verbatim>\<open>genre_display\<close> when the record has \<^verbatim>\<open>genre\<close>, the three author keys when it
  has \<^verbatim>\<open>Author\<close>, and \<^verbatim>\<open><field>_formatted\<close> for every key with a field rule.
\<close>

definition keys_to_format :: "pydict \<Rightarrow> string list" where
  "keys_to_format d =
     map fst d @
     (if map_of d ''genre'' \<noteq> None then [''genre_display''] else []) @
     (if map_of d ''Author'' \<noteq> None then [''author_name'', ''author_url'', ''author_isbn''] else [])"

definition assigned_keys :: "DataMapper \<Rightarrow> pydict \<Rightarrow> string list" where
  "assigned_keys self d =
     (if map_of d ''genre'' \<noteq> None then [''genre_display''] else []) @
     (if map_of d ''Author'' \<noteq> None then [''author_name'', ''author_url'', ''author_isbn''] else []) @
     map (\<lambda>n. n @ ''_formatted'') (filter (\<lambda>n. field_specs self n \<noteq> None) (keys_to_format d))"

definition is_str :: "pyval \<Rightarrow> bool" where
  "is_str v = (case v of PStr s \<Rightarrow> True | _ \<Rightarrow> False)"

text \<open>
  A markdown-style link \<^verbatim>\<open>[name](url)\<close> that starts at position \<open>i\<close> of a text: a
  non-empty name without \<^verbatim>\<open>]\<close> and a non-empty url without \<^verbatim>\<open>)\<close>.
\<close>

definition link_at :: "string \<Rightarrow> nat \<Rightarrow> string \<Rightarrow> string \<Rightarrow> bool" where
  "link_at text i name url \<longleftrightarrow>
     name \<noteq> [] \<and> CHR '']'' \<notin> set name \<and> url \<noteq> [] \<and> CHR '')'' \<notin> set url \<and>
     take (length name + length url + 4) (drop i text) = ''['' @ name @ '']('' @ url @ '')''"

text \<open>
  The catalog id as the spec words it: the last path segment of the url, read from its
  end (an optional final slash apart), when it is a token of ten or more upper-case
  letters and digits that follows a slash.
\<close>

definition catalog_id_at_end :: "string \<Rightarrow> string option" where
  "catalog_id_at_end url =
     (let u = (if url \<noteq> [] \<and> last url = CHR ''/'' then butlast url else url);
          tok = rev (takeWhile is_upper_alnum (rev u));
          pre = rev (dropWhile is_upper_alnum (rev u))
      in if 10 \<le> length tok \<and> pre \<noteq> [] \<and> last pre = CHR ''/'' then Some tok else None)"

text \<open>A text without the single newline that may end it.\<close>

definition chomp :: "string \<Rightarrow> string" where
  "chomp s = (if s \<noteq> [] \<and> last s = CHR 0x0A then butlast s else s)"

section \<open>Market metrics: properties\<close>

lemma col_max_Max:
  assumes "xs \<noteq> []"
  shows "col_max xs = Num (of_int (Max (set xs)))"
proof (cases xs)
  case Nil
  then show ?thesis using assms by simp
next
  case (Cons a list)
  then show ?thesis using Max.set_eq_fold[of a list] by (simp add: col_max_def)
qed

lemma metrics_length: "length (calculate_market_metrics df) = length df"
  by (simp add: calculate_market_metrics_def Let_def)

text \<open>Row \<open>i\<close> of the result: the five assignments, each from the base columns.\<close>

lemma metrics_nth:
  assumes "i < length df"
  shows "calculate_market_metrics df ! i =
    (df ! i)\<lparr>market_opportunity :=
        Some (np_div (np_mul (np_mul (Num (avg_price (df ! i))) (Num (of_int (avg_reviews (df ! i)))))
                             (Num (avg_rating (df ! i))))
                     (Num (of_int (book_count (df ! i))))),
      competition_level :=
        Some (np_mul (np_div (Num (of_int (book_count (df ! i)))) (col_max (map book_count df)))
                     (Num 100)),
      quality_threshold :=
        Some (np_mul (Num (avg_rating (df ! i)))
                     (np_div (Num (of_int (avg_reviews (df ! i)))) (col_max (map avg_reviews df)))),
      revenue_potential :=
        Some (np_mul (Num (avg_price (df ! i))) (Num (of_int (avg_reviews (df ! i))))),
      entry_difficulty :=
        Some (np_div
               (np_add
                  (np_mul (np_div (Num (of_int (book_count (df ! i)))) (col_max (map book_count df)))
                          (Num 100))
                  (np_mul
                     (np_mul (Num (avg_rating (df ! i)))
                             (np_div (Num (of_int (avg_reviews (df ! i))))
                                     (col_max (map avg_reviews df))))
                     (Num 20)))
               (Num 2))\<rparr>"
  using assms by (simp add: calculate_market_metrics_def Let_def comp_def)

lemma Max_book_count_pos:
  assumes "df \<noteq> []" and "\<forall>r\<in>set df. 1 \<le> book_count r"
  shows "1 \<le> Max (set (map book_count df))"
proof -
  have "hd df \<in> set df" using assms(1) by simp
  then have "book_count (hd df) \<in> set (map book_count df)" by simp
  then have "book_count (hd df) \<le> Max (set (map book_count df))" by simp
  moreover have "1 \<le> book_count (hd df)" using assms \<open>hd df \<in> set df\<close> by blast
  ultimately show ?thesis by linarith
qed

text \<open>
  \<^bold>\<open>C1\<close> (amended). For every non-empty list of genre-stats rows in which every row has
  \<open>book_count \<ge> 1\<close> and the largest \<open>avg_reviews\<close> is not zero, the calculation keeps the
  rows and their base columns and sets, for the row at every position:
  \<open>market_opportunity = avg_price * avg_reviews * avg_rating / book_count\<close>,
  \<open>competition_level = book_count / max book_count * 100\<close>,
  \<open>quality_threshold = avg_rating * (avg_reviews / max avg_reviews)\<close>,
  \<open>revenue_potential = avg_price * avg_reviews\<close> and
  \<open>entry_difficulty = (competition_level + quality_threshold * 20) / 2\<close>.
\<close>

theorem market_metrics_formulas:
  assumes "df \<noteq> []"
    and "\<forall>r\<in>set df. 1 \<le> book_count r"
    and "Max (set (map avg_reviews df)) \<noteq> 0"
    and "i < length df"
  shows "length (calculate_market_metrics df) = length df \<and>
    (let r = df ! i;
         r' = calculate_market_metrics df ! i;
         count_max = rat_of_int (Max (set (map book_count df)));
         reviews_max = rat_of_int (Max (set (map avg_reviews df)));
         competition = rat_of_int (book_count r) / count_max * 100;
         quality = avg_rating r * (rat_of_int (avg_reviews r) / reviews_max)
     in genre r' = genre r \<and> book_count r' = book_count r \<and> avg_price r' = avg_price r \<and>
        avg_rating r' = avg_rating r \<and> avg_reviews r' = avg_reviews r \<and>
        market_opportunity r' =
          Some (Num (avg_price r * rat_of_int (avg_reviews r) * avg_rating r
                       / rat_of_int (book_count r))) \<and>
        competition_level r' = Some (Num competition) \<and>
        quality_threshold r' = Some (Num quality) \<and>
        revenue_potential r' = Some (Num (avg_price r * rat_of_int (avg_reviews r))) \<and>
        entry_difficulty r' = Some (Num ((competition + quality * 20) / 2)))"
proof -
  have ne: "map book_count df \<noteq> []" "map avg_reviews df \<noteq> []"
    using assms(1) by simp_all
  have bc: "book_count (df ! i) \<noteq> 0"
    using assms(2,4) nth_mem[of i df] by fastforce
  have cm: "Max (set (map book_count df)) \<noteq> 0"
    using Max_book_count_pos[OF assms(1,2)] by linarith
  show ?thesis
    using bc cm assms(3)
    by (simp add: metrics_length metrics_nth[OF assms(4)] col_max_Max[OF ne(1)]
        col_max_Max[OF ne(2)] Let_def)
qed

theorem market_metrics_formulas_witness:
  "1 \<le> book_count (stats_row ''g'' 2 3 4 10) \<and> 1 \<le> book_count (stats_row ''h'' 4 3 4 5) \<and>
   Max (set (map avg_reviews [stats_row ''g'' 2 3 4 10, stats_row ''h'' 4 3 4 5])) = 10 \<and>
   market_opportunity (calculate_market_metrics [stats_row ''g'' 2 3 4 10, stats_row ''h'' 4 3 4 5] ! 0)
     = Some (Num 60) \<and>
   competition_level (calculate_market_metrics [stats_row ''g'' 2 3 4 10, stats_row ''h'' 4 3 4 5] ! 0)
     = Some (Num 50) \<and>
   quality_threshold (calculate_market_metrics [stats_row ''g'' 2 3 4 10, stats_row ''h'' 4 3 4 5] ! 0)
     = Some (Num 4) \<and>
   revenue_potential (calculate_market_metrics [stats_row ''g'' 2 3 4 10, stats_row ''h'' 4 3 4 5] ! 0)
     = Some (Num 30) \<and>
   entry_difficulty (calculate_market_metrics [stats_row ''g'' 2 3 4 10, stats_row ''h'' 4 3 4 5] ! 0)
     = Some (Num 65)"
  using market_metrics_formulas[of "[stats_row ''g'' 2 3 4 10, stats_row ''h'' 4 3 4 5]" 0]
  by (simp add: stats_row_def Let_def)

text \<open>
  The claim as it was stated, without the condition on \<open>avg_reviews\<close>, fails on a single
  genre none of whose books has a review: the quotient \<open>0 / 0\<close> is NaN, and so are
  \<open>quality_threshold\<close> and \<open>entry_difficulty\<close>.
\<close>

theorem market_metrics_counterexample:
  "[stats_row ''g'' 1 1 1 0] \<noteq> [] \<and> 1 \<le> book_count (stats_row ''g'' 1 1 1 0) \<and>
   quality_threshold (calculate_market_metrics [stats_row ''g'' 1 1 1 0] ! 0) = Some NonFinite \<and>
   entry_difficulty (calculate_market_metrics [stats_row ''g'' 1 1 1 0] ! 0) = Some NonFinite \<and>
   quality_threshold (calculate_market_metrics [stats_row ''g'' 1 1 1 0] ! 0) \<noteq>
     Some (Num (avg_rating (stats_row ''g'' 1 1 1 0) *
                (rat_of_int (avg_reviews (stats_row ''g'' 1 1 1 0)) /
                 rat_of_int (Max (set (map avg_reviews [stats_row ''g'' 1 1 1 0]))))))"
  by (simp add: calculate_market_metrics_def stats_row_def col_max_def Let_def)

text \<open>
  \<^bold>\<open>C9\<close>. The calculation is idempotent: applied to its own result, which has the same
  base columns, it yields the same frame, so the same five derived values in every row.
  Nothing but the frame passed in and returned carries state.
\<close>

theorem market_metrics_idempotent:
  "calculate_market_metrics (calculate_market_metrics df) = calculate_market_metrics df"
  by (simp add: calculate_market_metrics_def Let_def comp_def)

section \<open>The runtime: properties\<close>

text \<open>
  Splitting and joining are inverse, no token contains the separator, and there is one
  token more than there are separators.
\<close>

lemma py_split_nonempty: "py_split sep s \<noteq> []"
  by (induction s) (auto split: list.splits)

lemma py_split_join: "py_join [sep] (py_split sep s) = s"
proof (induction s)
  case Nil
  then show ?case by simp
next
  case (Cons c cs)
  obtain t ts where ts: "py_split sep cs = t # ts"
    using py_split_nonempty[of sep cs] by (cases "py_split sep cs") auto
  show ?case
  proof (cases "c = sep")
    case True
    then show ?thesis using Cons ts by simp
  next
    case False
    then show ?thesis using Cons ts by (cases ts) simp_all
  qed
qed

lemma py_split_tokens: "t \<in> set (py_split sep s) \<Longrightarrow> sep \<notin> set t"
proof (induction s arbitrary: t)
  case Nil
  then show ?case by simp
next
  case (Cons c cs)
  obtain u us where us: "py_split sep cs = u # us"
    using py_split_nonempty[of sep cs] by (cases "py_split sep cs") auto
  show ?case
  proof (cases "c = sep")
    case True
    then show ?thesis using Cons by auto
  next
    case False
    then have "t = c # u \<or> t \<in> set us" using Cons.prems us by simp
    then show ?thesis using Cons.IH[of u] Cons.IH[of t] us False by auto
  qed
qed

lemma py_split_count: "length (py_split sep s) = Suc (count_list s sep)"
proof (induction s)
  case Nil
  then show ?case by simp
next
  case (Cons c cs)
  obtain u us where us: "py_split sep cs = u # us"
    using py_split_nonempty[of sep cs] by (cases "py_split sep cs") auto
  then show ?case using Cons by simp
qed

text \<open>Trimming removes whitespace at both ends, nothing else, and all of it.\<close>

lemma py_strip_ends:
  assumes "py_strip s \<noteq> []"
  shows "\<not> isspace (hd (py_strip s))" and "\<not> isspace (last (py_strip s))"
proof -
  let ?a = "dropWhile isspace s" and ?b = "dropWhile isspace (rev (dropWhile isspace s))"
  have b: "?b \<noteq> []" using assms by (simp add: py_strip_def strip_by_def)
  then have "\<not> isspace (hd ?b)" by (rule hd_dropWhile)
  then show "\<not> isspace (last (py_strip s))"
    using b by (simp add: py_strip_def strip_by_def last_rev)
  have a: "?a \<noteq> []"
  proof
    assume "?a = []"
    then have "?b = []" by (simp only: rev.simps dropWhile.simps)
    then show False using b by (simp only: not_True_eq_False)
  qed
  then have ha: "\<not> isspace (hd ?a)" by (rule hd_dropWhile)
  have "hd (rev ?b) = hd ?a"
  proof -
    have "last (rev ?a) = hd ?a" using a by (simp add: last_rev)
    moreover have "last ?b = last (rev ?a)"
      using b by (metis last_appendR takeWhile_dropWhile_id)
    ultimately show ?thesis using b by (simp add: hd_rev)
  qed
  then show "\<not> isspace (hd (py_strip s))" using ha by (simp add: py_strip_def strip_by_def)
qed

lemma py_strip_inside: "\<exists>l r. s = l @ py_strip s @ r \<and> (\<forall>c\<in>set l. isspace c) \<and> (\<forall>c\<in>set r. isspace c)"
proof -
  let ?a = "dropWhile isspace s"
  have 1: "s = takeWhile isspace s @ ?a" by simp
  have "rev ?a = takeWhile isspace (rev ?a) @ dropWhile isspace (rev ?a)" by simp
  then have "rev (rev ?a) = rev (takeWhile isspace (rev ?a) @ dropWhile isspace (rev ?a))"
    by (rule arg_cong)
  then have 2: "?a = py_strip s @ rev (takeWhile isspace (rev ?a))"
    by (simp only: rev_rev_ident rev_append py_strip_def strip_by_def)
  have "s = takeWhile isspace s @ py_strip s @ rev (takeWhile isspace (rev ?a))"
    using 1 2 by metis
  moreover have "\<forall>c\<in>set (takeWhile isspace s). isspace c" using set_takeWhileD by fastforce
  moreover have "\<forall>c\<in>set (rev (takeWhile isspace (rev ?a))). isspace c"
    using set_takeWhileD by fastforce
  ultimately show ?thesis by blast
qed

section \<open>The field normalizer: properties\<close>

text \<open>The conversions raise three exceptions; the handlers catch two of them.\<close>

lemma py_float_errors: "py_float v = Inl e \<Longrightarrow> e = TypeError \<or> e = ValueError \<or> e = OverflowError"
  by (auto simp: py_float_def float_of_int_def split: pyval.splits option.splits if_splits)

lemma int_of_float_errors: "int_of_float x = Inl e \<Longrightarrow> e = ValueError \<or> e = OverflowError"
  by (auto simp: int_of_float_def split: pyfloat.splits)

lemma py_int_errors: "py_int v = Inl e \<Longrightarrow> e = TypeError \<or> e = ValueError \<or> e = OverflowError"
  by (auto simp: py_int_def dest: int_of_float_errors split: pyval.splits option.splits)

text \<open>The branches of the normalizer, one by one.\<close>

lemma ffv_empty:
  "v = PNone \<or> v = PStr [] \<Longrightarrow> format_field_value self fr name v = Inr ''N/A''"
  by (simp add: format_field_value_def)

lemma ffv_no_spec:
  "v \<noteq> PNone \<Longrightarrow> v \<noteq> PStr [] \<Longrightarrow> field_specs self name = None
    \<Longrightarrow> format_field_value self fr name v = Inr (py_str fr v)"
  by (simp add: format_field_value_def get_field_spec_def)

lemma ffv_price:
  "v \<noteq> PNone \<Longrightarrow> v \<noteq> PStr [] \<Longrightarrow> field_specs self ''price'' \<noteq> None
    \<Longrightarrow> format_field_value self fr ''price'' v =
        except_value_type (and_then (py_float v) (\<lambda>x. Inr (CHR ''$'' # format_fixed 2 x)))
          (py_str fr v)"
  by (auto simp add: format_field_value_def get_field_spec_def)

lemma ffv_rating:
  "v \<noteq> PNone \<Longrightarrow> v \<noteq> PStr [] \<Longrightarrow> field_specs self ''reviewAverage'' \<noteq> None
    \<Longrightarrow> format_field_value self fr ''reviewAverage'' v =
        except_value_type
          (and_then (py_float v) (\<lambda>rating. and_then (int_of_float rating) (\<lambda>n.
             and_then (str_repeat star n) (\<lambda>stars. Inr (stars @ '' '' @ format_fixed 1 rating)))))
          (py_str fr v)"
  by (auto simp add: format_field_value_def get_field_spec_def)

lemma ffv_reviews:
  "v \<noteq> PNone \<Longrightarrow> v \<noteq> PStr [] \<Longrightarrow> field_specs self ''nReviews'' \<noteq> None
    \<Longrightarrow> format_field_value self fr ''nReviews'' v =
        except_value_type (and_then (py_int v) (\<lambda>n. Inr (format_thousands n))) (py_str fr v)"
  by (auto simp add: format_field_value_def get_field_spec_def)

lemma ffv_tags:
  assumes "field_specs self name \<noteq> None" and "name = ''topicTags'' \<or> name = ''subcatsList''"
    and "s \<noteq> []"
  shows "format_field_value self fr name (PStr s) =
     Inr (if CHR ''|'' \<in> set s then
            py_join '', '' (map py_strip (filter (\<lambda>item. py_strip item \<noteq> []) (py_split CHR ''|'' s)))
          else if CHR ''#'' \<in> set s then
            py_join '', '' (map py_strip (filter (\<lambda>item. py_strip item \<noteq> []) (py_split CHR ''#'' s)))
          else s)"
proof -
  obtain spec where sp: "get_field_spec self name = Some spec"
    using assms(1) by (auto simp: get_field_spec_def)
  have n: "name \<noteq> ''price''" "name \<noteq> ''reviewAverage''" "name \<noteq> ''nReviews''"
    "name \<noteq> ''releaseDate''" "name \<noteq> ''isTrad''" "name \<noteq> ''isFree''"
    using assms(2) by auto
  show ?thesis
    unfolding format_field_value_def using sp n assms(2,3)
    by (simp add: py_str_def)
qed

text \<open>
  \<^bold>\<open>C2\<close>. The normalizer is written to be total: every conversion sits in a handler that
  falls back to \<^verbatim>\<open>str(value)\<close>. The handlers catch \<^verbatim>\<open>ValueError\<close> and \<^verbatim>\<open>TypeError\<close> only,
  and the conversions also raise \<^verbatim>\<open>OverflowError\<close>: on a field with a rule, an infinite
  rating (the float or the text \<^verbatim>\<open>inf\<close>), an infinite review count and a price that is an
  integer too large for a float all escape as exceptions instead of giving a string.
\<close>

theorem rating_overflow:
  "format_field_value (mapper_with [''reviewAverage'']) float_repr ''reviewAverage'' (PFloat PosInf)
     = Inl OverflowError \<and>
   format_field_value (mapper_with [''reviewAverage'']) float_repr ''reviewAverage'' (PStr ''inf'')
     = Inl OverflowError \<and>
   format_field_value (mapper_with [''nReviews'']) float_repr ''nReviews'' (PFloat PosInf)
     = Inl OverflowError \<and>
   format_field_value (mapper_with [''price'']) float_repr ''price'' (PInt (10 ^ 400))
     = Inl OverflowError"
proof -
  have f: "py_float (PFloat PosInf) = Inr PosInf" by (simp add: py_float_def)
  have g: "py_float (PStr ''inf'') = Inr PosInf" by code_simp
  have i: "py_int (PFloat PosInf) = Inl OverflowError" by (simp add: py_int_def int_of_float_def)
  have p: "py_float (PInt (10 ^ 400)) = Inl OverflowError" by code_simp
  have t: "int_of_float PosInf = Inl OverflowError" by (simp add: int_of_float_def)
  have s: "field_specs (mapper_with [''reviewAverage'']) ''reviewAverage'' \<noteq> None"
    "field_specs (mapper_with [''nReviews'']) ''nReviews'' \<noteq> None"
    "field_specs (mapper_with [''price'']) ''price'' \<noteq> None"
    by (simp_all add: mapper_with_def)
  have "format_field_value (mapper_with [''reviewAverage'']) float_repr ''reviewAverage''
      (PFloat PosInf) = Inl OverflowError"
    by (simp add: ffv_rating[OF _ _ s(1)] f t and_then_def except_value_type_def)
  moreover have "format_field_value (mapper_with [''reviewAverage'']) float_repr ''reviewAverage''
      (PStr ''inf'') = Inl OverflowError"
    by (simp add: ffv_rating[OF _ _ s(1)] g t and_then_def except_value_type_def)
  moreover have "format_field_value (mapper_with [''nReviews'']) float_repr ''nReviews''
      (PFloat PosInf) = Inl OverflowError"
    by (simp add: ffv_reviews[OF _ _ s(2)] i and_then_def except_value_type_def)
  moreover have "format_field_value (mapper_with [''price'']) float_repr ''price''
      (PInt (10 ^ 400)) = Inl OverflowError"
    by (simp only: ffv_price[OF _ _ s(3)] p and_then_def except_value_type_def
        pyval.distinct sum.case py_error.distinct simp_thms if_False not_False_eq_True)
  ultimately show ?thesis by blast
qed

text \<open>
  \<^bold>\<open>C7\<close> (amended). When the mapper has a rule for \<^verbatim>\<open>price\<close> and the value is neither
  \<^verbatim>\<open>None\<close> nor the empty string: a value that \<^verbatim>\<open>float()\<close> converts is returned as a dollar
  sign and that float with two decimals; a string that \<^verbatim>\<open>float()\<close> rejects is returned
  unchanged. (An integer too large for a float is the case left out: there \<^verbatim>\<open>float()\<close>
  raises and nothing is returned.)
\<close>

theorem price_format:
  assumes "field_specs self ''price'' \<noteq> None" and "value \<noteq> PNone" and "value \<noteq> PStr []"
  shows "(\<forall>x. py_float value = Inr x \<longrightarrow>
            format_field_value self float_repr ''price'' value = Inr (CHR ''$'' # format_fixed 2 x)) \<and>
         (\<forall>s. value = PStr s \<and> parse_float s = None \<longrightarrow>
            format_field_value self float_repr ''price'' value = Inr s)"
proof -
  have r: "format_field_value self float_repr ''price'' value =
      except_value_type (and_then (py_float value) (\<lambda>x. Inr (CHR ''$'' # format_fixed 2 x)))
        (py_str float_repr value)"
    by (rule ffv_price[OF assms(2,3,1)])
  show ?thesis
    unfolding r by (auto simp: and_then_def except_value_type_def py_float_def py_str_def)
qed

text \<open>The two instances of the spec: the float nearest to 12.3 and the text \<^verbatim>\<open>abc\<close>.\<close>

theorem price_format_witness:
  "format_field_value (mapper_with [''price'']) (\<lambda>q. []) ''price'' (PFloat (to_double (123 / 10)))
     = Inr ''$12.30'' \<and>
   format_field_value (mapper_with [''price'']) (\<lambda>q. []) ''price'' (PStr ''abc'') = Inr ''abc''"
proof -
  have s: "field_specs (mapper_with [''price'']) ''price'' \<noteq> None" by (simp add: mapper_with_def)
  have f: "CHR ''$'' # format_fixed 2 (to_double (123 / 10)) = ''$12.30''" by code_simp
  have p: "parse_float ''abc'' = None" by code_simp
  have "format_field_value (mapper_with [''price'']) (\<lambda>q. []) ''price'' (PFloat (to_double (123 / 10)))
     = Inr (CHR ''$'' # format_fixed 2 (to_double (123 / 10)))"
    using price_format[OF s, of "PFloat (to_double (123 / 10))" "\<lambda>q. []"] by (simp add: py_float_def)
  moreover have "format_field_value (mapper_with [''price'']) (\<lambda>q. []) ''price'' (PStr ''abc'') = Inr ''abc''"
    using price_format[OF s, of "PStr ''abc''" "\<lambda>q. []"] p by simp
  ultimately show ?thesis using f by simp
qed

text \<open>
  Without the two conditions the claim fails: the empty string is not numeric and is not
  returned unchanged but as \<^verbatim>\<open>N/A\<close>, and a mapper without a rule for \<^verbatim>\<open>price\<close> (an
  empty or missing mapping file) returns the number as \<^verbatim>\<open>str\<close> prints it, with no
  currency format.
\<close>

theorem price_format_counterexample:
  "format_field_value (mapper_with [''price'']) (\<lambda>q. []) ''price'' (PStr []) = Inr ''N/A'' \<and>
   format_field_value (mapper_with []) (\<lambda>q. []) ''price'' (PInt 12) = Inr ''12''"
  by code_simp

text \<open>
  \<^bold>\<open>C8\<close> (amended). For a non-empty string value of \<^verbatim>\<open>topicTags\<close> or \<^verbatim>\<open>subcatsList\<close>, when
  the mapper has a rule for the field: if the value contains \<^verbatim>\<open>|\<close> it is split on \<^verbatim>\<open>|\<close>,
  otherwise if it contains \<^verbatim>\<open>#\<close> it is split on \<^verbatim>\<open>#\<close>; every token is trimmed, the tokens
  that are empty after trimming are dropped, and the others are joined with a comma and
  a space; a value with neither delimiter is returned unchanged.
\<close>

theorem delimited_list_format:
  assumes "field_specs self name \<noteq> None" and "name = ''topicTags'' \<or> name = ''subcatsList''"
    and "s \<noteq> []"
  shows "format_field_value self float_repr name (PStr s) =
     Inr (if CHR ''|'' \<in> set s then
            py_join '', '' (filter (\<lambda>token. token \<noteq> []) (map py_strip (py_split CHR ''|'' s)))
          else if CHR ''#'' \<in> set s then
            py_join '', '' (filter (\<lambda>token. token \<noteq> []) (map py_strip (py_split CHR ''#'' s)))
          else s)"
  using assms by (simp add: ffv_tags filter_map comp_def)

theorem delimited_list_format_witness:
  "format_field_value (mapper_with [''topicTags'']) (\<lambda>q. []) ''topicTags'' (PStr ''a || b |c#d'')
     = Inr ''a, b, c#d'' \<and>
   format_field_value (mapper_with [''subcatsList'']) (\<lambda>q. []) ''subcatsList'' (PStr ''a # b'')
     = Inr ''a, b'' \<and>
   format_field_value (mapper_with [''topicTags'']) (\<lambda>q. []) ''topicTags'' (PStr ''plain'')
     = Inr ''plain''"
proof -
  have s: "field_specs (mapper_with [''topicTags'']) ''topicTags'' \<noteq> None"
    "field_specs (mapper_with [''subcatsList'']) ''subcatsList'' \<noteq> None"
    by (simp_all add: mapper_with_def)
  have e: "py_join '', '' (filter (\<lambda>token. token \<noteq> []) (map py_strip (py_split CHR ''|'' ''a || b |c#d'')))
      = ''a, b, c#d''"
    "py_join '', '' (filter (\<lambda>token. token \<noteq> []) (map py_strip (py_split CHR ''#'' ''a # b'')))
      = ''a, b''"
    by code_simp+
  show ?thesis
    using delimited_list_format[OF s(1), of "''a || b |c#d''" "\<lambda>q. []"]
      delimited_list_format[OF s(2), of "''a # b''" "\<lambda>q. []"]
      delimited_list_format[OF s(1), of "''plain''" "\<lambda>q. []"] e
    by simp
qed

text \<open>
  The claim as stated fails in three ways: it keeps empty tokens (\<^verbatim>\<open>a||b\<close> would give
  \<^verbatim>\<open>a, , b\<close>; the code gives \<^verbatim>\<open>a, b\<close>), the empty string gives \<^verbatim>\<open>N/A\<close>, and without a
  rule for the field the value is not split at all.
\<close>

theorem delimited_list_counterexample:
  "format_field_value (mapper_with [''topicTags'']) (\<lambda>q. []) ''topicTags'' (PStr ''a||b'')
     = Inr ''a, b'' \<and>
   py_join '', '' (map py_strip (py_split CHR ''|'' ''a||b'')) = ''a, , b'' \<and>
   format_field_value (mapper_with [''topicTags'']) (\<lambda>q. []) ''topicTags'' (PStr []) = Inr ''N/A'' \<and>
   format_field_value (mapper_with []) (\<lambda>q. []) ''topicTags'' (PStr ''a|b'') = Inr ''a|b''"
  by code_simp

section \<open>The genre lookup: properties\<close>

text \<open>Title-casing, position by position.\<close>

lemma title_from_length [simp]: "length (title_from p s) = length s"
  by (induction s arbitrary: p) simp_all

lemma title_from_nth:
  assumes "i < length s"
  shows "title_from p s ! i =
     (if iscased (s ! i)
      then (if (if i = 0 then p else iscased (s ! (i - 1))) then lower_char (s ! i)
            else upper_char (s ! i))
      else s ! i)"
  using assms
proof (induction s arbitrary: p i)
  case Nil
  then show ?case by simp
next
  case (Cons c cs)
  show ?case
  proof (cases i)
    case 0
    then show ?thesis by simp
  next
    case (Suc j)
    then have j: "j < length cs" using Cons.prems by simp
    show ?thesis
    proof (cases j)
      case 0
      then show ?thesis using Suc Cons.IH[OF j] by simp
    next
      case (Suc j')
      then show ?thesis using \<open>i = Suc j\<close> Cons.IH[OF j] by simp
    qed
  qed
qed

lemma uncased_separators: "\<not> iscased CHR ''_''" "\<not> iscased CHR '' ''"
  by (simp_all add: iscased_def isupper_def islower_def)

text \<open>
  \<^bold>\<open>C6\<close>. For a genre code that is not in the taxonomy (an empty taxonomy included) the
  lookup does not fail, and the name it returns is the code, character by character,
  with every underscore replaced by a space and every word capitalized: a letter is in
  upper case when no letter stands before it and in lower case otherwise (a word is a
  run of letters, as \<^verbatim>\<open>str.title\<close> has it). So \<^verbatim>\<open>cozy_mystery\<close> becomes
  \<^verbatim>\<open>Cozy Mystery\<close>.
\<close>

theorem genre_fallback:
  assumes "genre_mapping self code = None"
  shows "\<exists>name. get_genre_display_name self (PStr code) = Inr name \<and>
           length name = length code \<and>
           (\<forall>i<length code.
              name ! i =
                (if code ! i = CHR ''_'' then CHR '' ''
                 else if iscased (code ! i)
                      then (if 0 < i \<and> iscased (code ! (i - 1)) then lower_char (code ! i)
                            else upper_char (code ! i))
                      else code ! i))"
proof -
  let ?s = "py_replace CHR ''_'' CHR '' '' code"
  have r: "get_genre_display_name self (PStr code) = Inr (py_title ?s)"
    using assms by (simp add: get_genre_display_name_def)
  have len: "length ?s = length code" by (simp add: py_replace_def)
  have nth: "?s ! i = (if code ! i = CHR ''_'' then CHR '' '' else code ! i)"
    if "i < length code" for i
    using that by (simp add: py_replace_def)
  have cased: "iscased (?s ! i) \<longleftrightarrow> iscased (code ! i)" if "i < length code" for i
    using nth[OF that] uncased_separators by auto
  have "py_title ?s ! i =
      (if code ! i = CHR ''_'' then CHR '' ''
       else if iscased (code ! i)
            then (if 0 < i \<and> iscased (code ! (i - 1)) then lower_char (code ! i)
                  else upper_char (code ! i))
            else code ! i)" if i: "i < length code" for i
  proof -
    have prev: "0 < i \<Longrightarrow> iscased (?s ! (i - 1)) \<longleftrightarrow> iscased (code ! (i - 1))"
      using cased[of "i - 1"] i by simp
    show ?thesis
      using title_from_nth[of i ?s False] i len nth[OF i] cased[OF i] prev uncased_separators
      by (auto simp: py_title_def)
  qed
  then show ?thesis using r len by (simp add: py_title_def)
qed

theorem genre_fallback_witness:
  "genre_mapping (mapper_with []) ''cozy_mystery'' = None \<and>
   get_genre_display_name (mapper_with []) (PStr ''cozy_mystery'') = Inr ''Cozy Mystery''"
proof -
  have n: "genre_mapping (mapper_with []) ''cozy_mystery'' = None" by (simp add: mapper_with_def)
  have v: "get_genre_display_name (mapper_with []) (PStr ''cozy_mystery'') = Inr ''Cozy Mystery''"
    by code_simp
  obtain name where "get_genre_display_name (mapper_with []) (PStr ''cozy_mystery'') = Inr name"
    using genre_fallback[OF n] by blast
  then show ?thesis using n v by simp
qed

section \<open>The author-reference extractor: properties\<close>

subsection \<open>The markdown pattern\<close>

text \<open>The pattern matches at the start of a text exactly when a link starts there, and
  the search returns the first one.\<close>

lemma match_markdown_link:
  assumes "link_at s 0 name url"
  shows "match_markdown s = Some (name, url)"
proof -
  let ?n = "length name + length url + 4"
  have t: "take ?n s = ''['' @ name @ '']('' @ url @ '')''"
    and nm: "name \<noteq> []" "CHR '']'' \<notin> set name" and ur: "url \<noteq> []" "CHR '')'' \<notin> set url"
    using assms by (simp_all add: link_at_def)
  have "s = take ?n s @ drop ?n s" by simp
  then have s: "s = CHR ''['' # name @ CHR '']'' # CHR ''('' # url @ CHR '')'' # drop ?n s"
    using t by simp
  have n1: "takeWhile (\<lambda>x. x \<noteq> CHR '']'') (name @ CHR '']'' # CHR ''('' # url @ CHR '')'' # drop ?n s) = name"
    using nm(2) by (subst takeWhile_append2) auto
  have n2: "dropWhile (\<lambda>x. x \<noteq> CHR '']'') (name @ CHR '']'' # CHR ''('' # url @ CHR '')'' # drop ?n s)
      = CHR '']'' # CHR ''('' # url @ CHR '')'' # drop ?n s"
    using nm(2) by (subst dropWhile_append2) auto
  have u1: "takeWhile (\<lambda>x. x \<noteq> CHR '')'') (url @ CHR '')'' # drop ?n s) = url"
    using ur(2) by (subst takeWhile_append2) auto
  have u2: "dropWhile (\<lambda>x. x \<noteq> CHR '')'') (url @ CHR '')'' # drop ?n s) = CHR '')'' # drop ?n s"
    using ur(2) by (subst dropWhile_append2) auto
  show ?thesis
    by (subst s) (simp add: match_markdown_def n1 n2 u1 u2 nm(1) ur(1) Let_def)
qed

lemma link_match_markdown:
  assumes "match_markdown s = Some (name, url)"
  shows "link_at s 0 name url"
proof -
  obtain r where s: "s = CHR ''['' # r"
    using assms by (cases s) (auto simp: match_markdown_def split: if_splits)
  let ?P = "\<lambda>x. x \<noteq> CHR '']''" and ?Q = "\<lambda>x. x \<noteq> CHR '')''"
  have nm: "name = takeWhile ?P r" "name \<noteq> []"
    using assms s
    by (auto simp: match_markdown_def Let_def split: if_splits list.splits)
  obtain r2 where r1: "dropWhile ?P r = CHR '']'' # CHR ''('' # r2"
    using assms s
    by (auto simp: match_markdown_def Let_def split: if_splits list.splits)
  have ur: "url = takeWhile ?Q r2" "url \<noteq> []" "dropWhile ?Q r2 \<noteq> []"
    using assms s r1
    by (auto simp: match_markdown_def Let_def split: if_splits list.splits)
  have "\<not> ?Q (hd (dropWhile ?Q r2))" using ur(3) by (rule hd_dropWhile)
  then obtain r3 where r3: "dropWhile ?Q r2 = CHR '')'' # r3"
    using ur(3) by (cases "dropWhile ?Q r2") auto
  have "r = name @ CHR '']'' # CHR ''('' # r2"
    using takeWhile_dropWhile_id[of ?P r] nm(1) r1 by simp
  moreover have "r2 = url @ CHR '')'' # r3"
    using takeWhile_dropWhile_id[of ?Q r2] ur(1) r3 by simp
  ultimately have full: "s = CHR ''['' # name @ CHR '']'' # CHR ''('' # url @ CHR '')'' # r3"
    using s by simp
  have "CHR '']'' \<notin> set name" using nm(1) set_takeWhileD[of "CHR '']''" ?P r] by auto
  moreover have "CHR '')'' \<notin> set url" using ur(1) set_takeWhileD[of "CHR '')''" ?Q r2] by auto
  moreover have "take (length name + length url + 4) s
      = ''['' @ name @ '']('' @ url @ '')''"
  proof -
    define t where "t = ''['' @ name @ '']('' @ url @ '')''"
    have "s = t @ r3" using full by (simp add: t_def)
    moreover have "length name + length url + 4 = length t" by (simp add: t_def)
    ultimately have "take (length name + length url + 4) s = t" by (simp del: append_assoc)
    then show ?thesis by (simp only: t_def)
  qed
  ultimately show ?thesis using nm(2) ur(2) by (simp add: link_at_def)
qed

lemma search_markdown_first:
  assumes "i \<le> length s" and "match_markdown (drop i s) = Some m"
    and "\<forall>j<i. match_markdown (drop j s) = None"
  shows "search_markdown s = Some m"
  using assms
proof (induction s arbitrary: i)
  case Nil
  then show ?case by simp
next
  case (Cons c cs)
  show ?case
  proof (cases i)
    case 0
    then show ?thesis using Cons.prems(2) by simp
  next
    case (Suc k)
    have none: "match_markdown (c # cs) = None" using Cons.prems(3) Suc by fastforce
    have "\<forall>j<k. match_markdown (drop j cs) = None"
      using Cons.prems(3) Suc by fastforce
    then have "search_markdown cs = Some m"
      using Cons.IH[of k] Cons.prems(1,2) Suc by simp
    then show ?thesis using none by simp
  qed
qed

lemma link_at_drop: "link_at text i name url \<longleftrightarrow> link_at (drop i text) 0 name url"
  by (simp add: link_at_def)

lemma search_markdown_link:
  assumes "link_at text i name url" and "\<forall>j<i. \<forall>n u. \<not> link_at text j n u"
  shows "search_markdown text = Some (name, url)"
proof (rule search_markdown_first[of i])
  have "drop i text \<noteq> []" using assms(1) by (auto simp: link_at_def)
  then show "i \<le> length text" by simp
  show "match_markdown (drop i text) = Some (name, url)"
    using assms(1) link_at_drop match_markdown_link by blast
  show "\<forall>j<i. match_markdown (drop j text) = None"
  proof (intro allI impI)
    fix j assume j: "j < i"
    show "match_markdown (drop j text) = None"
    proof (cases "match_markdown (drop j text)")
      case None
      then show ?thesis .
    next
      case (Some m)
      obtain n u where "m = (n, u)" by (cases m) auto
      then have "link_at text j n u" using Some link_match_markdown link_at_drop by blast
      then show ?thesis using assms(2) j by blast
    qed
  qed
qed

subsection \<open>The catalog-id pattern\<close>

lemma not_alnum_delims: "\<not> is_upper_alnum CHR ''/''" "\<not> is_upper_alnum (CHR 0x0A)"
  by (simp_all add: is_upper_alnum_def isupper_def isdigit_def)

lemma tail_cases:
  assumes "rest \<in> {[], ''/'', [CHR 0x0A], [CHR ''/'', CHR 0x0A]}"
  shows "takeWhile is_upper_alnum rest = []" and "dropWhile is_upper_alnum rest = rest"
    and "length rest \<le> 2"
  using assms not_alnum_delims by auto

lemma match_isbn_iff:
  "match_isbn s = Some tok \<longleftrightarrow>
     (\<exists>rest. s = CHR ''/'' # tok @ rest \<and> rest \<in> {[], ''/'', [CHR 0x0A], [CHR ''/'', CHR 0x0A]} \<and>
        (\<forall>c\<in>set tok. is_upper_alnum c) \<and> 10 \<le> length tok)"
proof
  assume m: "match_isbn s = Some tok"
  then obtain r where s: "s = CHR ''/'' # r"
    by (cases s) (auto simp: match_isbn_def split: if_splits)
  have tok: "tok = takeWhile is_upper_alnum r" "10 \<le> length tok"
    and rest: "dropWhile is_upper_alnum r \<in> {[], ''/'', [CHR 0x0A], [CHR ''/'', CHR 0x0A]}"
    using m s by (auto simp: match_isbn_def Let_def split: if_splits)
  have "r = tok @ dropWhile is_upper_alnum r" using tok(1) by simp
  moreover have "\<forall>c\<in>set tok. is_upper_alnum c" using tok(1) set_takeWhileD by fastforce
  ultimately show "\<exists>rest. s = CHR ''/'' # tok @ rest \<and>
      rest \<in> {[], ''/'', [CHR 0x0A], [CHR ''/'', CHR 0x0A]} \<and>
      (\<forall>c\<in>set tok. is_upper_alnum c) \<and> 10 \<le> length tok"
    using s tok(2) rest by blast
next
  assume "\<exists>rest. s = CHR ''/'' # tok @ rest \<and>
      rest \<in> {[], ''/'', [CHR 0x0A], [CHR ''/'', CHR 0x0A]} \<and>
      (\<forall>c\<in>set tok. is_upper_alnum c) \<and> 10 \<le> length tok"
  then obtain rest where s: "s = CHR ''/'' # tok @ rest"
    and rest: "rest \<in> {[], ''/'', [CHR 0x0A], [CHR ''/'', CHR 0x0A]}"
    and tok: "\<forall>c\<in>set tok. is_upper_alnum c" "10 \<le> length tok"
    by blast
  have t: "takeWhile is_upper_alnum (tok @ rest) = tok"
    using tok(1) tail_cases(1)[OF rest] by (simp add: takeWhile_append2)
  have d: "dropWhile is_upper_alnum (tok @ rest) = rest"
    using tok(1) tail_cases(2)[OF rest] by (simp add: dropWhile_append2)
  show "match_isbn s = Some tok"
    unfolding s match_isbn_def list.case Let_def t d using rest tok(2) by simp
qed

lemma search_isbn_segment:
  assumes "search_isbn s = Some tok"
  shows "\<exists>pre rest. s = pre @ CHR ''/'' # tok @ rest \<and>
      rest \<in> {[], ''/'', [CHR 0x0A], [CHR ''/'', CHR 0x0A]} \<and>
      (\<forall>c\<in>set tok. is_upper_alnum c) \<and> 10 \<le> length tok"
  using assms
proof (induction s)
  case Nil
  then show ?case by (simp add: match_isbn_def)
next
  case (Cons c cs)
  show ?case
  proof (cases "match_isbn (c # cs)")
    case (Some t)
    then have "t = tok" using Cons.prems by simp
    then obtain rest where "c # cs = [] @ CHR ''/'' # tok @ rest"
      "rest \<in> {[], ''/'', [CHR 0x0A], [CHR ''/'', CHR 0x0A]}"
      "\<forall>c\<in>set tok. is_upper_alnum c" "10 \<le> length tok"
      using Some match_isbn_iff[of "c # cs" tok] by auto
    then show ?thesis by blast
  next
    case None
    then have "search_isbn cs = Some tok" using Cons.prems by simp
    then obtain pre rest where "cs = pre @ CHR ''/'' # tok @ rest"
      "rest \<in> {[], ''/'', [CHR 0x0A], [CHR ''/'', CHR 0x0A]}"
      "\<forall>c\<in>set tok. is_upper_alnum c" "10 \<le> length tok"
      using Cons.IH by blast
    then have "c # cs = (c # pre) @ CHR ''/'' # tok @ rest" by simp
    then show ?thesis
      using \<open>rest \<in> _\<close> \<open>\<forall>c\<in>set tok. is_upper_alnum c\<close> \<open>10 \<le> length tok\<close> by blast
  qed
qed

lemma no_earlier_match:
  assumes t': "\<forall>c\<in>set t'. is_upper_alnum c" and r': "length rest' \<le> 2"
    and eq: "t' @ rest' = pre @ CHR ''/'' # tok @ rest" and tok: "10 \<le> length tok"
  shows False
proof -
  consider us where "t' = pre @ us" "us @ rest' = CHR ''/'' # tok @ rest"
    | us where "t' @ us = pre" "rest' = us @ CHR ''/'' # tok @ rest"
    using eq by (auto simp: append_eq_append_conv2)
  then show False
  proof cases
    case 1
    show False
    proof (cases us)
      case Nil
      then have "length rest' = Suc (length tok + length rest)" using 1(2) by simp
      then show False using r' tok by simp
    next
      case (Cons u us')
      then have "u = CHR ''/''" using 1(2) by simp
      moreover have "u \<in> set t'" using 1(1) Cons by simp
      ultimately show False using t' not_alnum_delims(1) by blast
    qed
  next
    case 2
    then have "length rest' = length us + Suc (length tok + length rest)" by simp
    then show False using r' tok by simp
  qed
qed

lemma segment_search_isbn:
  assumes "s = pre @ CHR ''/'' # tok @ rest"
    and "rest \<in> {[], ''/'', [CHR 0x0A], [CHR ''/'', CHR 0x0A]}"
    and "\<forall>c\<in>set tok. is_upper_alnum c" and "10 \<le> length tok"
  shows "search_isbn s = Some tok"
  using assms(1)
proof (induction pre arbitrary: s)
  case Nil
  then have "match_isbn s = Some tok"
    using match_isbn_iff[of s tok] assms(2-4) by auto
  then show ?case using Nil by simp
next
  case (Cons c pre)
  let ?s' = "pre @ CHR ''/'' # tok @ rest"
  have s: "s = c # ?s'" using Cons.prems by simp
  have rec: "search_isbn ?s' = Some tok" using Cons.IH by simp
  have "match_isbn (c # ?s') = None"
  proof (cases "match_isbn (c # ?s')")
    case None
    then show ?thesis .
  next
    case (Some t')
    then obtain rest' where m: "c # ?s' = CHR ''/'' # t' @ rest'"
      "rest' \<in> {[], ''/'', [CHR 0x0A], [CHR ''/'', CHR 0x0A]}"
      "\<forall>c\<in>set t'. is_upper_alnum c"
      using match_isbn_iff[of "c # ?s'" t'] by auto
    have "t' @ rest' = pre @ CHR ''/'' # tok @ rest" using m(1) by simp
    then have False
      using no_earlier_match[OF m(3) tail_cases(3)[OF m(2)] _ assms(4)] by blast
    then show ?thesis ..
  qed
  then show ?case using s rec by simp
qed

lemma catalog_id_segment:
  assumes tok: "\<forall>c\<in>set tok. is_upper_alnum c" "10 \<le> length tok"
  shows "catalog_id_at_end (pre @ CHR ''/'' # tok) = Some tok"
    and "catalog_id_at_end (pre @ CHR ''/'' # tok @ ''/'') = Some tok"
proof -
  let ?u = "pre @ CHR ''/'' # tok"
  have ne: "tok \<noteq> []" using tok(2) by auto
  have "is_upper_alnum (last tok)" using tok(1) last_in_set[OF ne] by blast
  then have "last tok \<noteq> CHR ''/''" using not_alnum_delims(1) by metis
  then have l: "last ?u \<noteq> CHR ''/''" using ne by simp
  have r: "rev ?u = rev tok @ CHR ''/'' # rev pre" by simp
  have t: "takeWhile is_upper_alnum (rev ?u) = rev tok"
    unfolding r using tok(1) not_alnum_delims(1) by (subst takeWhile_append2) auto
  have d: "dropWhile is_upper_alnum (rev ?u) = CHR ''/'' # rev pre"
    unfolding r using tok(1) not_alnum_delims(1) by (subst dropWhile_append2) auto
  let ?r = "if 10 \<le> length (rev (rev tok)) \<and> rev (CHR ''/'' # rev pre) \<noteq> [] \<and>
               last (rev (CHR ''/'' # rev pre)) = CHR ''/''
            then Some (rev (rev tok)) else None"
  have r: "?r = Some tok" using tok(2) by simp
  have e1: "(if ?u \<noteq> [] \<and> last ?u = CHR ''/'' then butlast ?u else ?u) = ?u"
    using l by simp
  have "catalog_id_at_end ?u = ?r"
    by (simp only: catalog_id_at_end_def Let_def e1 t d)
  then show "catalog_id_at_end ?u = Some tok" using r by simp
  let ?w = "pre @ CHR ''/'' # tok @ ''/''"
  have e2: "(if ?w \<noteq> [] \<and> last ?w = CHR ''/'' then butlast ?w else ?w) = ?u"
    by (simp add: butlast_append)
  have "catalog_id_at_end ?w = ?r"
    by (simp only: catalog_id_at_end_def Let_def e2 t d)
  then show "catalog_id_at_end ?w = Some tok" using r by simp
qed

lemma segment_catalog_id:
  assumes "s = pre @ CHR ''/'' # tok @ rest"
    and "rest \<in> {[], ''/'', [CHR 0x0A], [CHR ''/'', CHR 0x0A]}"
    and tok: "\<forall>c\<in>set tok. is_upper_alnum c" "10 \<le> length tok"
  shows "catalog_id_at_end (chomp s) = Some tok"
proof -
  have ne: "tok \<noteq> []" using tok(2) by auto
  have "is_upper_alnum (last tok)" using tok(1) last_in_set[OF ne] by blast
  then have l: "last tok \<noteq> CHR 0x0A" using not_alnum_delims(2) by metis
  consider "rest = []" | "rest = ''/''" | "rest = [CHR 0x0A]" | "rest = [CHR ''/'', CHR 0x0A]"
    using assms(2) by auto
  then show ?thesis
  proof cases
    case 1
    then have "chomp s = pre @ CHR ''/'' # tok" using assms(1) ne l by (simp add: chomp_def)
    then show ?thesis using catalog_id_segment(1)[OF tok] by simp
  next
    case 2
    then have "chomp s = pre @ CHR ''/'' # tok @ ''/''" using assms(1) by (simp add: chomp_def)
    then show ?thesis using catalog_id_segment(2)[OF tok] by simp
  next
    case 3
    then have "s = (pre @ CHR ''/'' # tok) @ [CHR 0x0A]" using assms(1) by simp
    then have "chomp s = pre @ CHR ''/'' # tok" by (simp add: chomp_def del: append_assoc)
    then show ?thesis using catalog_id_segment(1)[OF tok] by simp
  next
    case 4
    then have "s = (pre @ CHR ''/'' # tok @ ''/'') @ [CHR 0x0A]" using assms(1) by simp
    then have "chomp s = pre @ CHR ''/'' # tok @ ''/''" by (simp add: chomp_def del: append_assoc)
    then show ?thesis using catalog_id_segment(2)[OF tok] by simp
  qed
qed

lemma catalog_id_is_segment:
  assumes "catalog_id_at_end (chomp s) = Some tok"
  shows "\<exists>pre rest. s = pre @ CHR ''/'' # tok @ rest \<and>
      rest \<in> {[], ''/'', [CHR 0x0A], [CHR ''/'', CHR 0x0A]} \<and>
      (\<forall>c\<in>set tok. is_upper_alnum c) \<and> 10 \<le> length tok"
proof -
  define v where "v = chomp s"
  define u where "u = (if v \<noteq> [] \<and> last v = CHR ''/'' then butlast v else v)"
  define pr where "pr = rev (dropWhile is_upper_alnum (rev u))"
  have c: "tok = rev (takeWhile is_upper_alnum (rev u))" "10 \<le> length tok" "pr \<noteq> []"
    "last pr = CHR ''/''"
    using assms unfolding catalog_id_at_end_def v_def[symmetric] u_def[symmetric] Let_def
      pr_def[symmetric]
    by (auto split: if_splits)
  have "rev u = takeWhile is_upper_alnum (rev u) @ dropWhile is_upper_alnum (rev u)" by simp
  then have "rev (rev u) = rev (takeWhile is_upper_alnum (rev u) @ dropWhile is_upper_alnum (rev u))"
    by (rule arg_cong)
  then have u: "u = pr @ tok" unfolding pr_def c(1) by (simp only: rev_rev_ident rev_append)
  have "pr = butlast pr @ [last pr]" using c(3) append_butlast_last_id[of pr] by metis
  then have u': "u = butlast pr @ CHR ''/'' # tok" using u c(4) by (metis append.assoc append_Cons append_Nil)
  have al: "\<forall>c\<in>set tok. is_upper_alnum c" using c(1) set_takeWhileD by fastforce
  have v: "v = u \<or> v = u @ ''/''"
  proof (cases "v \<noteq> [] \<and> last v = CHR ''/''")
    case True
    then have "v = butlast v @ [last v]" using append_butlast_last_id[of v] by metis
    then show ?thesis using True u_def by metis
  next
    case False
    then show ?thesis using u_def by auto
  qed
  have s: "s = v \<or> s = v @ [CHR 0x0A]"
  proof (cases "s \<noteq> [] \<and> last s = CHR 0x0A")
    case True
    then have "s = butlast s @ [last s]" using append_butlast_last_id[of s] by metis
    then show ?thesis using True v_def chomp_def by metis
  next
    case False
    then show ?thesis using v_def chomp_def by auto
  qed
  have "\<exists>rest. s = butlast pr @ CHR ''/'' # tok @ rest \<and>
      rest \<in> {[], ''/'', [CHR 0x0A], [CHR ''/'', CHR 0x0A]}"
    using s v u' by auto
  then show ?thesis using al c(2) by blast
qed

text \<open>
  The search from the left finds a token exactly when the url ends, up to a final slash
  and a final newline, in a slash and that token: then reading the url from its end
  finds the same token.
\<close>

lemma search_isbn_catalog_id: "search_isbn url = catalog_id_at_end (chomp url)"
proof (cases "search_isbn url")
  case None
  have "catalog_id_at_end (chomp url) = None"
  proof (cases "catalog_id_at_end (chomp url)")
    case None
    then show ?thesis .
  next
    case (Some tok)
    then have "search_isbn url = Some tok"
      using catalog_id_is_segment[OF Some] segment_search_isbn by blast
    then show ?thesis using \<open>search_isbn url = None\<close> by simp
  qed
  then show ?thesis using None by simp
next
  case (Some tok)
  then have "catalog_id_at_end (chomp url) = Some tok"
    using search_isbn_segment[OF Some] segment_catalog_id by blast
  then show ?thesis using Some by simp
qed

text \<open>
  \<^bold>\<open>C5\<close> (amended). For a text whose first markdown-style link is \<^verbatim>\<open>[name](url)\<close>, the
  extractor returns the bracketed text as display name, the parenthesized text as url,
  and as catalog id the last path segment of the url when it is a token of ten or more
  upper-case letters and digits at the end of the url, where the end may be followed by
  one final newline (and the token by one slash); otherwise the id is \<^verbatim>\<open>None\<close>.
\<close>

theorem author_link:
  assumes "link_at text i name url" and "\<forall>j<i. \<forall>n u. \<not> link_at text j n u"
  shows "extract_author_info (PStr text) = Inr (name, Some url, catalog_id_at_end (chomp url))"
proof -
  have "text \<noteq> []" using assms(1) by (auto simp: link_at_def)
  then have "py_truthy (PStr text)" by (simp add: py_truthy_def)
  then show ?thesis
    using search_markdown_link[OF assms] search_isbn_catalog_id[of url]
    by (simp add: extract_author_info_def)
qed

theorem author_link_witness:
  "link_at ''[Jane Doe](http://example.com/B00ABCDEFG)'' 0 ''Jane Doe'' ''http://example.com/B00ABCDEFG'' \<and>
   catalog_id_at_end (chomp ''http://example.com/B00ABCDEFG'') = Some ''B00ABCDEFG'' \<and>
   extract_author_info (PStr ''[Jane Doe](http://example.com/B00ABCDEFG)'')
     = Inr (''Jane Doe'', Some ''http://example.com/B00ABCDEFG'', Some ''B00ABCDEFG'')"
proof -
  have l: "link_at ''[Jane Doe](http://example.com/B00ABCDEFG)'' 0 ''Jane Doe''
      ''http://example.com/B00ABCDEFG''"
    by code_simp
  have c: "catalog_id_at_end (chomp ''http://example.com/B00ABCDEFG'') = Some ''B00ABCDEFG''"
    by code_simp
  show ?thesis
    using author_link[OF l] l c by simp
qed

text \<open>
  The newline is what the claim as stated misses: \<^verbatim>\<open>$\<close> also matches before a newline
  that ends the url, so a url that ends in a newline has no token at its end and still
  gets a catalog id.
\<close>

theorem author_link_counterexample:
  "link_at (''[a](http://x.org/B00ABCDEFG'' @ [CHR 0x0A] @ '')'') 0 ''a''
     (''http://x.org/B00ABCDEFG'' @ [CHR 0x0A]) \<and>
   extract_author_info (PStr (''[a](http://x.org/B00ABCDEFG'' @ [CHR 0x0A] @ '')''))
     = Inr (''a'', Some (''http://x.org/B00ABCDEFG'' @ [CHR 0x0A]), Some ''B00ABCDEFG'') \<and>
   catalog_id_at_end (''http://x.org/B00ABCDEFG'' @ [CHR 0x0A]) = None"
  by code_simp

section \<open>The record enhancer: properties\<close>

text \<open>An assignment changes one dictionary of the store and no other.\<close>

lemma length_setitem [simp]: "length (dict_setitem h a k v) = length h"
  by (simp add: dict_setitem_def)

lemma nth_setitem_other [simp]: "i \<noteq> a \<Longrightarrow> dict_setitem h a k v ! i = h ! i"
  by (simp add: dict_setitem_def)

lemma nth_setitem_same: "a < length h \<Longrightarrow> dict_setitem h a k v ! a = AList.update k v (h ! a)"
  by (simp add: dict_setitem_def)

lemma in_set_update: "p \<in> set (AList.update k v al) \<Longrightarrow> p = (k, v) \<or> p \<in> set al"
  by (induction al) (auto split: if_splits)

lemma keys_update: "fst ` set (AList.update k v al) = insert k (fst ` set al)"
  by (simp add: dom_update)

text \<open>What one assignment does to the dictionary at \<open>e\<close>: its lookups, its keys and
  its items.\<close>

lemma setitem_effect:
  assumes "e < length h"
  shows "map_of (dict_setitem h e k v ! e) k' = (if k' = k then Some v else map_of (h ! e) k')"
    and "fst ` set (dict_setitem h e k v ! e) = insert k (fst ` set (h ! e))"
    and "p \<in> set (dict_setitem h e k v ! e) \<Longrightarrow> p = (k, v) \<or> p \<in> set (h ! e)"
  using assms by (auto simp: nth_setitem_same update_conv' keys_update dest: in_set_update)

text \<open>
  The first two blocks: each leaves the store as it is (the key is absent, or the helper
  raised) or assigns its derived keys.
\<close>

lemma genre_name_raises:
  "get_genre_display_name self g = Inl er \<longleftrightarrow> er = AttributeError \<and> \<not> is_str g"
  by (cases g) (auto simp: get_genre_display_name_def is_str_def Let_def)

lemma genre_step_cases:
  assumes "apply_genre_mapping self e h = (eo, h')"
  obtains (absent) "map_of (h ! e) ''genre'' = None" "eo = None" "h' = h"
  | (raised) g where "map_of (h ! e) ''genre'' = Some g" "\<not> is_str g" "eo = Some AttributeError" "h' = h"
  | (assigned) s where "map_of (h ! e) ''genre'' \<noteq> None" "eo = None"
      "h' = dict_setitem h e ''genre_display'' (PStr s)"
proof (cases "map_of (h ! e) ''genre''")
  case None
  then have "eo = None" "h' = h"
    using assms by (simp_all add: apply_genre_mapping_def dict_get_def)
  then show ?thesis using absent None by blast
next
  case (Some g)
  show ?thesis
  proof (cases "get_genre_display_name self g")
    case (Inl er)
    then have r: "er = AttributeError" "\<not> is_str g" using genre_name_raises[of self g er] by blast+
    have "eo = Some AttributeError" "h' = h"
      using assms Some Inl r(1) by (simp_all add: apply_genre_mapping_def dict_get_def)
    then show ?thesis using raised[of g] Some r by blast
  next
    case (Inr s)
    have "eo = None" "h' = dict_setitem h e ''genre_display'' (PStr s)"
      using assms Some Inr by (simp_all add: apply_genre_mapping_def dict_get_def)
    then show ?thesis using assigned[of s] Some by blast
  qed
qed

lemma author_info_ok:
  assumes "\<not> py_truthy a \<or> is_str a"
  shows "\<exists>t. extract_author_info a = Inr t"
proof (cases "py_truthy a")
  case False
  then show ?thesis by (simp add: extract_author_info_def)
next
  case True
  then obtain s where "a = PStr s" using assms by (cases a) (simp_all add: is_str_def)
  then show ?thesis using True
    by (cases "search_markdown s") (auto simp add: extract_author_info_def)
qed

lemma author_info_raises:
  assumes "extract_author_info a = Inl er"
  shows "er = TypeError \<and> py_truthy a \<and> \<not> is_str a"
proof -
  have t: "py_truthy a" using assms by (auto simp: extract_author_info_def split: if_splits)
  have n: "\<not> is_str a" using assms author_info_ok[of a] by auto
  then have "extract_author_info a = Inl TypeError"
    using t by (cases a) (simp_all add: extract_author_info_def is_str_def)
  then show ?thesis using assms t n by simp
qed

lemma author_step_cases:
  assumes "extract_author e h = (eo, h')"
  obtains (absent) "map_of (h ! e) ''Author'' = None" "eo = None" "h' = h"
  | (raised) a where "map_of (h ! e) ''Author'' = Some a" "py_truthy a" "\<not> is_str a"
      "eo = Some TypeError" "h' = h"
  | (assigned) name url isbn where "map_of (h ! e) ''Author'' \<noteq> None" "eo = None"
      "h' = dict_setitem (dict_setitem (dict_setitem h e ''author_name'' (PStr name))
               e ''author_url'' (opt_str url)) e ''author_isbn'' (opt_str isbn)"
proof (cases "map_of (h ! e) ''Author''")
  case None
  then have "eo = None" "h' = h"
    using assms by (simp_all add: extract_author_def dict_get_def)
  then show ?thesis using absent None by blast
next
  case (Some a)
  show ?thesis
  proof (cases "extract_author_info a")
    case (Inl er)
    then have r: "er = TypeError" "py_truthy a" "\<not> is_str a"
      using author_info_raises[of a er] by blast+
    have "eo = Some TypeError" "h' = h"
      using assms Some Inl r(1) by (simp_all add: extract_author_def dict_get_def)
    then show ?thesis using raised[of a] Some r by blast
  next
    case (Inr t)
    obtain name url isbn where t: "t = (name, url, isbn)" by (cases t) auto
    have "eo = None"
      "h' = dict_setitem (dict_setitem (dict_setitem h e ''author_name'' (PStr name))
               e ''author_url'' (opt_str url)) e ''author_isbn'' (opt_str isbn)"
      using assms Some Inr t by (simp_all add: extract_author_def dict_get_def Let_def)
    then show ?thesis using assigned[of name url isbn] Some by blast
  qed
qed

text \<open>The formatting loop, by induction on the items still to format.\<close>

lemma format_frame:
  "length (snd (format_items self fr e items h)) = length h \<and>
   (\<forall>i. i \<noteq> e \<longrightarrow> snd (format_items self fr e items h) ! i = h ! i)"
  by (induction items arbitrary: h) (auto split: sum.splits)

lemma format_lookup:
  assumes "e < length h"
    and "k \<notin> (\<lambda>n. n @ ''_formatted'') ` {n \<in> fst ` set items. field_specs self n \<noteq> None}"
  shows "map_of (snd (format_items self fr e items h) ! e) k = map_of (h ! e) k"
  using assms
proof (induction items arbitrary: h)
  case Nil
  then show ?case by simp
next
  case (Cons p items)
  obtain n v where p: "p = (n, v)" by (cases p) auto
  have rest: "k \<notin> (\<lambda>n. n @ ''_formatted'') ` {n \<in> fst ` set items. field_specs self n \<noteq> None}"
    using Cons.prems(2) by auto
  show ?case
  proof (cases "field_specs self n = None")
    case True
    then show ?thesis using Cons.IH[OF Cons.prems(1) rest] p by simp
  next
    case False
    then have kn: "k \<noteq> n @ ''_formatted''" using Cons.prems(2) p by auto
    show ?thesis
    proof (cases "format_field_value self fr n v")
      case (Inl er)
      then show ?thesis using False p by simp
    next
      case (Inr s)
      let ?h1 = "dict_setitem h e (n @ ''_formatted'') (PStr s)"
      have "map_of (snd (format_items self fr e items ?h1) ! e) k = map_of (?h1 ! e) k"
        using Cons.IH[of ?h1] Cons.prems(1) rest by simp
      then show ?thesis using False p Inr kn setitem_effect(1)[OF Cons.prems(1)] by simp
    qed
  qed
qed

lemma format_keeps_keys:
  assumes "e < length h" and "map_of (h ! e) k \<noteq> None"
  shows "map_of (snd (format_items self fr e items h) ! e) k \<noteq> None"
  using assms
proof (induction items arbitrary: h)
  case Nil
  then show ?case by simp
next
  case (Cons p items)
  obtain n v where p: "p = (n, v)" by (cases p) auto
  show ?case
  proof (cases "format_field_value self fr n v")
    case (Inl er)
    then show ?thesis using p Cons by simp
  next
    case (Inr s)
    let ?h1 = "dict_setitem h e (n @ ''_formatted'') (PStr s)"
    have "map_of (?h1 ! e) k \<noteq> None"
      using Cons.prems setitem_effect(1)[OF Cons.prems(1)] by simp
    then have "map_of (snd (format_items self fr e items ?h1) ! e) k \<noteq> None"
      using Cons.IH[of ?h1] Cons.prems(1) by simp
    then show ?thesis using p Inr Cons by simp
  qed
qed

text \<open>A call of the enhancer is the three blocks in a row, on the copy at the end of the
  store.\<close>

lemma enhanced_run:
  obtains eo1 h1 eo2 h2 eo3 h3 where
    "apply_genre_mapping self (length h) (h @ [h ! a]) = (eo1, h1)"
    "extract_author (length h) h1 = (eo2, h2)"
    "format_items self fr (length h) (h2 ! length h) h2 = (eo3, h3)"
    "get_enhanced_book_data self fr h a =
      (case eo1 of
         Some er \<Rightarrow> (Inl er, h1)
       | None \<Rightarrow>
           (case eo2 of
              Some er \<Rightarrow> (Inl er, h2)
            | None \<Rightarrow> (case eo3 of Some er \<Rightarrow> (Inl er, h3) | None \<Rightarrow> (Inr (length h), h3))))"
proof -
  obtain eo1 h1 where s1: "apply_genre_mapping self (length h) (h @ [h ! a]) = (eo1, h1)"
    by fastforce
  obtain eo2 h2 where s2: "extract_author (length h) h1 = (eo2, h2)" by fastforce
  obtain eo3 h3 where s3: "format_items self fr (length h) (h2 ! length h) h2 = (eo3, h3)"
    by fastforce
  have "get_enhanced_book_data self fr h a =
      (case eo1 of
         Some er \<Rightarrow> (Inl er, h1)
       | None \<Rightarrow>
           (case eo2 of
              Some er \<Rightarrow> (Inl er, h2)
            | None \<Rightarrow> (case eo3 of Some er \<Rightarrow> (Inl er, h3) | None \<Rightarrow> (Inr (length h), h3))))"
    using s1 s2 s3
    by (simp add: get_enhanced_book_data_def dict_copy_def dict_items_def Let_def
        split: option.splits)
  then show ?thesis using that s1 s2 s3 by blast
qed

lemma setitem_keys:
  "e < length h \<Longrightarrow> fst ` set (dict_setitem h e k0 v ! e) = insert k0 (fst ` set (h ! e))"
  by (simp add: nth_setitem_same keys_update)

lemma setitem_other:
  "e < length h \<Longrightarrow> k \<noteq> k0 \<Longrightarrow> map_of (dict_setitem h e k0 v ! e) k = map_of (h ! e) k"
  by (simp add: nth_setitem_same update_conv')

lemma setitem_keeps:
  "e < length h \<Longrightarrow> map_of (h ! e) k \<noteq> None \<Longrightarrow> map_of (dict_setitem h e k0 v ! e) k \<noteq> None"
  by (simp add: nth_setitem_same update_conv')

lemma setitem_pairs:
  "e < length h \<Longrightarrow> p \<in> set (dict_setitem h e k0 v ! e) \<Longrightarrow> p \<in> set (h ! e) \<or> fst p = k0"
  using in_set_update[of p k0 v "h ! e"] by (auto simp: nth_setitem_same)

lemma genre_step_effect:
  assumes "e < length h" and "apply_genre_mapping self e h = (None, h1)"
  shows "length h1 = length h"
    and "fst ` set (h1 ! e) = fst ` set (h ! e) \<union>
           (if map_of (h ! e) ''genre'' \<noteq> None then {''genre_display''} else {})"
    and "k \<noteq> ''genre_display'' \<Longrightarrow> map_of (h1 ! e) k = map_of (h ! e) k"
    and "map_of (h ! e) k \<noteq> None \<Longrightarrow> map_of (h1 ! e) k \<noteq> None"
    and "p \<in> set (h1 ! e) \<Longrightarrow> p \<in> set (h ! e) \<or> fst p = ''genre_display''"
    and "map_of (h ! e) ''genre'' = None \<Longrightarrow> h1 = h"
proof -
  consider (absent) "map_of (h ! e) ''genre'' = None" "h1 = h"
    | (assigned) s where "map_of (h ! e) ''genre'' \<noteq> None"
        "h1 = dict_setitem h e ''genre_display'' (PStr s)"
    using assms(2) by (cases rule: genre_step_cases) auto
  note c = this
  show "length h1 = length h" using c by cases simp_all
  show "fst ` set (h1 ! e) = fst ` set (h ! e) \<union>
           (if map_of (h ! e) ''genre'' \<noteq> None then {''genre_display''} else {})"
    using c by cases (simp_all add: setitem_keys[OF assms(1)])
  show "map_of (h1 ! e) k = map_of (h ! e) k" if "k \<noteq> ''genre_display''"
    using c that by cases (simp_all add: setitem_other[OF assms(1)])
  show "map_of (h1 ! e) k \<noteq> None" if "map_of (h ! e) k \<noteq> None"
    using c that by cases (simp_all add: setitem_keeps[OF assms(1)])
  show "p \<in> set (h ! e) \<or> fst p = ''genre_display''" if "p \<in> set (h1 ! e)"
    using c that setitem_pairs[OF assms(1), of p] by cases auto
  show "h1 = h" if "map_of (h ! e) ''genre'' = None"
    using c that by cases simp_all
qed

lemma author_step_effect:
  assumes "e < length h" and "extract_author e h = (None, h2)"
  shows "length h2 = length h"
    and "fst ` set (h2 ! e) = fst ` set (h ! e) \<union>
           (if map_of (h ! e) ''Author'' \<noteq> None
            then {''author_name'', ''author_url'', ''author_isbn''} else {})"
    and "k \<notin> {''author_name'', ''author_url'', ''author_isbn''}
           \<Longrightarrow> map_of (h2 ! e) k = map_of (h ! e) k"
    and "map_of (h ! e) k \<noteq> None \<Longrightarrow> map_of (h2 ! e) k \<noteq> None"
    and "p \<in> set (h2 ! e)
           \<Longrightarrow> p \<in> set (h ! e) \<or> fst p \<in> {''author_name'', ''author_url'', ''author_isbn''}"
    and "map_of (h ! e) ''Author'' = None \<Longrightarrow> h2 = h"
proof -
  consider (absent) "map_of (h ! e) ''Author'' = None" "h2 = h"
    | (assigned) name url isbn where "map_of (h ! e) ''Author'' \<noteq> None"
        "h2 = dict_setitem (dict_setitem (dict_setitem h e ''author_name'' (PStr name))
               e ''author_url'' (opt_str url)) e ''author_isbn'' (opt_str isbn)"
    using assms(2) by (cases rule: author_step_cases) auto
  note c = this
  show "length h2 = length h" using c by cases simp_all
  show "h2 = h" if "map_of (h ! e) ''Author'' = None"
    using c that by cases simp_all
  show "fst ` set (h2 ! e) = fst ` set (h ! e) \<union>
           (if map_of (h ! e) ''Author'' \<noteq> None
            then {''author_name'', ''author_url'', ''author_isbn''} else {})"
    using c assms(1) by cases (auto simp add: setitem_keys)
  show "map_of (h2 ! e) k = map_of (h ! e) k"
    if "k \<notin> {''author_name'', ''author_url'', ''author_isbn''}"
    using c that assms(1) by cases (simp_all add: setitem_other)
  show "map_of (h2 ! e) k \<noteq> None" if "map_of (h ! e) k \<noteq> None"
    using c that assms(1) by cases (simp_all add: setitem_keeps)
  show "p \<in> set (h ! e) \<or> fst p \<in> {''author_name'', ''author_url'', ''author_isbn''}"
    if "p \<in> set (h2 ! e)"
  proof (use c in cases)
    case absent
    then show ?thesis using that by simp
  next
    case (assigned name url isbn)
    let ?ha = "dict_setitem h e ''author_name'' (PStr name)"
    let ?hb = "dict_setitem ?ha e ''author_url'' (opt_str url)"
    have "p \<in> set (?hb ! e) \<or> fst p = ''author_isbn''"
      using that assigned(2) setitem_pairs[of e ?hb p] assms(1) by simp
    moreover have "p \<in> set (?hb ! e) \<Longrightarrow> p \<in> set (?ha ! e) \<or> fst p = ''author_url''"
      using setitem_pairs[of e ?ha p] assms(1) by simp
    moreover have "p \<in> set (?ha ! e) \<Longrightarrow> p \<in> set (h ! e) \<or> fst p = ''author_name''"
      using setitem_pairs[of e h p] assms(1) by simp
    ultimately show ?thesis by blast
  qed
qed

text \<open>The record when the formatting loop starts.\<close>

lemma prepared:
  assumes s1: "apply_genre_mapping self (length h) (h @ [d]) = (None, h1)"
    and s2: "extract_author (length h) h1 = (None, h2)"
  shows "length h2 = Suc (length h)"
    and "fst ` set (h2 ! length h) = set (keys_to_format d)"
    and "k \<notin> set ((if map_of d ''genre'' \<noteq> None then [''genre_display''] else []) @
                  (if map_of d ''Author'' \<noteq> None
                   then [''author_name'', ''author_url'', ''author_isbn''] else []))
          \<Longrightarrow> map_of (h2 ! length h) k = map_of d k"
    and "map_of d k \<noteq> None \<Longrightarrow> map_of (h2 ! length h) k \<noteq> None"
    and "p \<in> set (h2 ! length h) \<Longrightarrow> p \<in> set d \<or>
           fst p \<in> {''genre_display'', ''author_name'', ''author_url'', ''author_isbn''}"
proof -
  let ?e = "length h"
  have e0: "?e < length (h @ [d])" and d0: "(h @ [d]) ! ?e = d" by simp_all
  note g = genre_step_effect[OF e0 s1, unfolded d0]
  have e1: "?e < length h1" using g(1) by simp
  note a = author_step_effect[OF e1 s2]
  have au: "map_of (h1 ! ?e) ''Author'' = map_of d ''Author''" using g(3)[of "''Author''"] by simp
  show "length h2 = Suc ?e" using a(1) g(1) by simp
  show "fst ` set (h2 ! ?e) = set (keys_to_format d)"
    using a(2) g(2) au by (auto simp: keys_to_format_def)
  show "map_of (h2 ! ?e) k = map_of d k"
    if "k \<notin> set ((if map_of d ''genre'' \<noteq> None then [''genre_display''] else []) @
                  (if map_of d ''Author'' \<noteq> None
                   then [''author_name'', ''author_url'', ''author_isbn''] else []))"
  proof -
    have "map_of (h1 ! ?e) k = map_of d k"
    proof (cases "map_of d ''genre'' = None")
      case True
      then show ?thesis using g(6) d0 by simp
    next
      case False
      then show ?thesis using that g(3)[of k] by simp
    qed
    moreover have "map_of (h2 ! ?e) k = map_of (h1 ! ?e) k"
    proof (cases "map_of d ''Author'' = None")
      case True
      then show ?thesis using a(6) au by simp
    next
      case False
      then show ?thesis using that a(3)[of k] by simp
    qed
    ultimately show ?thesis by simp
  qed
  show "map_of (h2 ! ?e) k \<noteq> None" if "map_of d k \<noteq> None"
    using that g(4)[of k] a(4)[of k] by simp
  show "p \<in> set d \<or> fst p \<in> {''genre_display'', ''author_name'', ''author_url'', ''author_isbn''}"
    if "p \<in> set (h2 ! ?e)"
    using that g(5)[of p] a(5)[of p] by auto
qed

lemma enhanced_frame:
  "length (snd (get_enhanced_book_data self fr h a)) = Suc (length h) \<and>
   (\<forall>i < length h. snd (get_enhanced_book_data self fr h a) ! i = h ! i)"
proof -
  let ?e = "length h" and ?h0 = "h @ [h ! a]"
  obtain eo1 h1 eo2 h2 eo3 h3 where
    s1: "apply_genre_mapping self ?e ?h0 = (eo1, h1)" and
    s2: "extract_author ?e h1 = (eo2, h2)" and
    s3: "format_items self fr ?e (h2 ! ?e) h2 = (eo3, h3)" and
    r: "get_enhanced_book_data self fr h a =
      (case eo1 of
         Some er \<Rightarrow> (Inl er, h1)
       | None \<Rightarrow>
           (case eo2 of
              Some er \<Rightarrow> (Inl er, h2)
            | None \<Rightarrow> (case eo3 of Some er \<Rightarrow> (Inl er, h3) | None \<Rightarrow> (Inr ?e, h3))))"
    by (rule enhanced_run)
  have f1: "length h1 = Suc ?e \<and> (\<forall>i. i \<noteq> ?e \<longrightarrow> h1 ! i = ?h0 ! i)"
    using genre_step_cases[OF s1] by (metis length_setitem nth_setitem_other length_append_singleton)
  have f2: "length h2 = Suc ?e \<and> (\<forall>i. i \<noteq> ?e \<longrightarrow> h2 ! i = ?h0 ! i)"
    using author_step_cases[OF s2] f1 by (metis length_setitem nth_setitem_other)
  have f3: "length h3 = Suc ?e \<and> (\<forall>i. i \<noteq> ?e \<longrightarrow> h3 ! i = ?h0 ! i)"
    using format_frame[of self fr ?e "h2 ! ?e" h2] s3 f2 by simp
  have pre: "\<And>i. i < ?e \<Longrightarrow> ?h0 ! i = h ! i" by (simp add: nth_append)
  show ?thesis
    using r f1 f2 f3 pre by (auto split: option.splits)
qed

text \<open>
  \<^bold>\<open>C10\<close>. The enhancer never changes its input record: after the call, whether it
  returned or raised, the input holds the items it held before, and so does every other
  dictionary that existed; the record returned is a new one.
\<close>

theorem enhancer_keeps_input:
  assumes "book_data < length h"
  shows "dict_items (snd (get_enhanced_book_data self float_repr h book_data)) book_data
           = dict_items h book_data \<and>
         take (length h) (snd (get_enhanced_book_data self float_repr h book_data)) = h \<and>
         (case fst (get_enhanced_book_data self float_repr h book_data) of
            Inl er \<Rightarrow> True
          | Inr enhanced \<Rightarrow> enhanced = length h)"
proof -
  let ?r = "get_enhanced_book_data self float_repr h book_data"
  have f: "length (snd ?r) = Suc (length h)" "\<forall>i < length h. snd ?r ! i = h ! i"
    using enhanced_frame[of self float_repr h book_data] by simp_all
  have "take (length h) (snd ?r) = h"
    using f by (intro nth_equalityI) simp_all
  moreover have "case fst ?r of Inl er \<Rightarrow> True | Inr enhanced \<Rightarrow> enhanced = length h"
    by (rule enhanced_run[of self h book_data float_repr]) (auto split: option.splits)
  ultimately show ?thesis using f(2) assms by (simp add: dict_items_def)
qed

theorem enhancer_keeps_input_witness:
  "dict_items (snd (get_enhanced_book_data (mapper_with [''price'']) (\<lambda>q. [])
      [[(''genre'', PStr ''cozy_mystery''), (''price'', PInt 3)]] 0)) 0
     = [(''genre'', PStr ''cozy_mystery''), (''price'', PInt 3)] \<and>
   fst (get_enhanced_book_data (mapper_with [''price'']) (\<lambda>q. [])
      [[(''genre'', PStr ''cozy_mystery''), (''price'', PInt 3)]] 0) = Inr 1"
proof -
  have v: "fst (get_enhanced_book_data (mapper_with [''price'']) (\<lambda>q. [])
      [[(''genre'', PStr ''cozy_mystery''), (''price'', PInt 3)]] 0) = Inr 1"
    by code_simp
  show ?thesis
    using v enhancer_keeps_input[of 0 "[[(''genre'', PStr ''cozy_mystery''), (''price'', PInt 3)]]"
        "mapper_with [''price'']" "\<lambda>q. []"]
    by (simp add: dict_items_def)
qed

text \<open>
  \<^bold>\<open>C4\<close> (amended). When the enhancer returns, every key of the input is a key of the
  output, and every key that the enhancer does not assign (see \<open>assigned_keys\<close>) has in
  the output the value it has in the input, or is absent from both.
\<close>

theorem enhancer_preserves_other_keys:
  assumes "book_data < length h"
    and "get_enhanced_book_data self float_repr h book_data = (Inr enhanced, h')"
  shows "(\<forall>k. k \<notin> set (assigned_keys self (dict_items h book_data))
            \<longrightarrow> dict_get h' enhanced k = dict_get h book_data k) \<and>
         (\<forall>k. dict_get h book_data k \<noteq> None \<longrightarrow> dict_get h' enhanced k \<noteq> None)"
proof -
  let ?e = "length h" and ?d = "h ! book_data"
  obtain eo1 h1 eo2 h2 eo3 h3 where
    s1: "apply_genre_mapping self ?e (h @ [?d]) = (eo1, h1)" and
    s2: "extract_author ?e h1 = (eo2, h2)" and
    s3: "format_items self float_repr ?e (h2 ! ?e) h2 = (eo3, h3)" and
    r: "get_enhanced_book_data self float_repr h book_data =
      (case eo1 of
         Some er \<Rightarrow> (Inl er, h1)
       | None \<Rightarrow>
           (case eo2 of
              Some er \<Rightarrow> (Inl er, h2)
            | None \<Rightarrow> (case eo3 of Some er \<Rightarrow> (Inl er, h3) | None \<Rightarrow> (Inr ?e, h3))))"
    by (rule enhanced_run)
  have ok: "eo1 = None" "eo2 = None" "eo3 = None" "enhanced = ?e" "h' = h3"
    using r assms(2) by (auto split: option.splits)
  note p = prepared[OF s1[unfolded ok] s2[unfolded ok]]
  have e2: "?e < length h2" using p(1) by simp
  have h3: "h3 = snd (format_items self float_repr ?e (h2 ! ?e) h2)" using s3 by simp
  have "dict_get h' enhanced k = dict_get h book_data k"
    if "k \<notin> set (assigned_keys self (dict_items h book_data))" for k
  proof -
    have "k \<notin> (\<lambda>n. n @ ''_formatted'') ` {n \<in> fst ` set (h2 ! ?e). field_specs self n \<noteq> None}"
      using that p(2) by (auto simp: assigned_keys_def dict_items_def)
    then have "map_of (h3 ! ?e) k = map_of (h2 ! ?e) k"
      unfolding h3 by (rule format_lookup[OF e2])
    moreover have "map_of (h2 ! ?e) k = map_of ?d k"
      using that by (intro p(3)) (auto simp: assigned_keys_def dict_items_def)
    ultimately show ?thesis using ok by (simp add: dict_get_def)
  qed
  moreover have "dict_get h' enhanced k \<noteq> None" if "dict_get h book_data k \<noteq> None" for k
  proof -
    have "map_of (h2 ! ?e) k \<noteq> None" using that by (intro p(4)) (simp add: dict_get_def)
    then have "map_of (h3 ! ?e) k \<noteq> None"
      unfolding h3 by (rule format_keeps_keys[OF e2])
    then show ?thesis using ok by (simp add: dict_get_def)
  qed
  ultimately show ?thesis by blast
qed

theorem enhancer_preserves_other_keys_witness:
  "get_enhanced_book_data (mapper_with [''price'']) (\<lambda>q. [])
      [[(''genre'', PStr ''cozy_mystery''), (''price'', PInt 3)]] 0
     = (Inr 1, [[(''genre'', PStr ''cozy_mystery''), (''price'', PInt 3)],
                [(''genre'', PStr ''cozy_mystery''), (''price'', PInt 3),
                 (''genre_display'', PStr ''Cozy Mystery''),
                 (''price_formatted'', PStr ''$3.00'')]]) \<and>
   ''price'' \<notin> set (assigned_keys (mapper_with [''price''])
       [(''genre'', PStr ''cozy_mystery''), (''price'', PInt 3)]) \<and>
   dict_get [[(''genre'', PStr ''cozy_mystery''), (''price'', PInt 3)],
             [(''genre'', PStr ''cozy_mystery''), (''price'', PInt 3),
              (''genre_display'', PStr ''Cozy Mystery''),
              (''price_formatted'', PStr ''$3.00'')]] 1 ''price''
     = dict_get [[(''genre'', PStr ''cozy_mystery''), (''price'', PInt 3)]] 0 ''price''"
proof -
  have run: "get_enhanced_book_data (mapper_with [''price'']) (\<lambda>q. [])
      [[(''genre'', PStr ''cozy_mystery''), (''price'', PInt 3)]] 0
     = (Inr 1, [[(''genre'', PStr ''cozy_mystery''), (''price'', PInt 3)],
                [(''genre'', PStr ''cozy_mystery''), (''price'', PInt 3),
                 (''genre_display'', PStr ''Cozy Mystery''),
                 (''price_formatted'', PStr ''$3.00'')]])"
    by code_simp
  have out: "''price'' \<notin> set (assigned_keys (mapper_with [''price''])
       (dict_items [[(''genre'', PStr ''cozy_mystery''), (''price'', PInt 3)]] 0))"
    by code_simp
  have "dict_get [[(''genre'', PStr ''cozy_mystery''), (''price'', PInt 3)],
             [(''genre'', PStr ''cozy_mystery''), (''price'', PInt 3),
              (''genre_display'', PStr ''Cozy Mystery''),
              (''price_formatted'', PStr ''$3.00'')]] 1 ''price''
     = dict_get [[(''genre'', PStr ''cozy_mystery''), (''price'', PInt 3)]] 0 ''price''"
    using enhancer_preserves_other_keys[OF _ run] out by simp
  then show ?thesis using run out by (simp add: dict_items_def)
qed

text \<open>
  A key the enhancer assigns is overwritten when the input already has it: a record
  with both \<^verbatim>\<open>genre\<close> and \<^verbatim>\<open>genre_display\<close> (the columns of the \<^verbatim>\<open>books\<close> table) comes back
  with the display name recomputed.
\<close>

theorem enhancer_overwrites_counterexample:
  "fst (get_enhanced_book_data (mapper_with []) (\<lambda>q. [])
      [[(''genre'', PStr ''cozy_mystery''), (''genre_display'', PStr ''Mystery'')]] 0) = Inr 1 \<and>
   dict_get (snd (get_enhanced_book_data (mapper_with []) (\<lambda>q. [])
      [[(''genre'', PStr ''cozy_mystery''), (''genre_display'', PStr ''Mystery'')]] 0)) 1
      ''genre_display'' = Some (PStr ''Cozy Mystery'') \<and>
   dict_get [[(''genre'', PStr ''cozy_mystery''), (''genre_display'', PStr ''Mystery'')]] 0
      ''genre_display'' = Some (PStr ''Mystery'')"
  by code_simp

text \<open>
  \<^bold>\<open>C3\<close>. The enhancer is written to skip what is missing: it tests for the keys
  before it reads them, a null \<^verbatim>\<open>Author\<close> becomes the unknown author and a null field
  with a rule becomes \<^verbatim>\<open>N/A\<close>. A null \<^verbatim>\<open>genre\<close> is the case it misses:
  \<^verbatim>\<open>genre_code.replace\<close> is evaluated as the default of \<^verbatim>\<open>get\<close> before the table is
  consulted, so a record whose \<^verbatim>\<open>genre\<close> is \<^verbatim>\<open>None\<close> makes the enhancer raise
  \<^verbatim>\<open>AttributeError\<close>, with any mapper, where the claim says it returns.
\<close>

theorem enhancer_raises_on_null_genre:
  "fst (get_enhanced_book_data self float_repr [[(''genre'', PNone)]] 0) = Inl AttributeError \<and>
   get_enhanced_book_data (mapper_with [''price'']) float_repr
       [[(''Author'', PNone), (''price'', PNone)]] 0
     = (Inr 1, [[(''Author'', PNone), (''price'', PNone)],
                [(''Author'', PNone), (''price'', PNone),
                 (''author_name'', PStr ''Unknown Author''), (''author_url'', PNone),
                 (''author_isbn'', PNone), (''price_formatted'', PStr ''N/A'')]])"
proof -
  have g: "apply_genre_mapping self (Suc 0) [[(''genre'', PNone)], [(''genre'', PNone)]]
      = (Some AttributeError, [[(''genre'', PNone)], [(''genre'', PNone)]])"
    by (simp add: apply_genre_mapping_def dict_get_def get_genre_display_name_def)
  have 1: "fst (get_enhanced_book_data self float_repr [[(''genre'', PNone)]] 0) = Inl AttributeError"
    by (simp add: get_enhanced_book_data_def dict_copy_def g)
  have a: "extract_author_info PNone = Inr (''Unknown Author'', None, None)"
    by (simp add: extract_author_info_def py_truthy_def)
  have s: "field_specs (mapper_with [''price'']) ''price'' \<noteq> None"
    "field_specs (mapper_with [''price'']) ''Author'' = None"
    "field_specs (mapper_with [''price'']) ''author_name'' = None"
    "field_specs (mapper_with [''price'']) ''author_url'' = None"
    "field_specs (mapper_with [''price'']) ''author_isbn'' = None"
    by (simp_all add: mapper_with_def)
  have f: "format_field_value (mapper_with [''price'']) float_repr ''price'' PNone = Inr ''N/A''"
    by (rule ffv_empty) simp
  have 2: "get_enhanced_book_data (mapper_with [''price'']) float_repr
       [[(''Author'', PNone), (''price'', PNone)]] 0
     = (Inr 1, [[(''Author'', PNone), (''price'', PNone)],
                [(''Author'', PNone), (''price'', PNone),
                 (''author_name'', PStr ''Unknown Author''), (''author_url'', PNone),
                 (''author_isbn'', PNone), (''price_formatted'', PStr ''N/A'')]])"
    using s
    by (simp add: get_enhanced_book_data_def dict_copy_def apply_genre_mapping_def
        extract_author_def dict_get_def dict_items_def dict_setitem_def opt_str_def a f Let_def)
  show ?thesis using 1 2 by simp
qed

end
